theory Spec2Isabelle
  imports Main "HOL-Library.Word" "HOL-Library.Sublist"
begin

section \<open>JavaScript strings\<close>

text \<open>
  A JavaScript string is a sequence of 16-bit code units. String literals of the source
  are written \<open>js ''...''\<close>; every character of such a literal is an ASCII code unit.
\<close>

type_synonym jschar = "16 word"
type_synonym jsstring = "jschar list"

definition js :: "string \<Rightarrow> jsstring" where
  "js s = map of_char s"

text \<open>
  \<open>String.prototype.substring(start, end)\<close>: both indices are clamped to the length of
  the string and swapped when \<open>start > end\<close>.
\<close>

definition substring :: "jsstring \<Rightarrow> nat \<Rightarrow> nat \<Rightarrow> jsstring" where
  "substring s a b =
     (let a' = min a (length s); b' = min b (length s)
      in take (max a' b' - min a' b') (drop (min a' b') s))"

section \<open>The comment-span pattern of \<open>quartoParser.js\<close>\<close>

text \<open>
  The pattern \<^verbatim>\<open>/\[([^\]]+)\]\{(.comment)\s+ref="([^"]+)"\}/g\<close> is a flat sequence of
  single-character matchers and greedy \<open>+\<close> repetitions of a character class. \<open>One p\<close>
  consumes one code unit satisfying \<open>p\<close>; \<open>Plus p\<close> consumes one or more.
\<close>

datatype item = One "jschar \<Rightarrow> bool" | Plus "jschar \<Rightarrow> bool"

text \<open>
  Backtracking matcher at a fixed start position. The result lists the text consumed by
  each item of the pattern, followed by the unconsumed rest. A \<open>Plus\<close> first tries to
  consume one more code unit (greedy) and, when the continuation then fails, gives the
  code unit back and goes on with the rest of the pattern.
\<close>

fun bt :: "item list \<Rightarrow> jsstring \<Rightarrow> (jsstring list \<times> jsstring) option" where
  "bt [] s = Some ([], s)"
| "bt (One p # r) [] = None"
| "bt (One p # r) (c # s) =
     (if p c then map_option (\<lambda>(gs, rest). ([c] # gs, rest)) (bt r s) else None)"
| "bt (Plus p # r) [] = None"
| "bt (Plus p # r) (c # s) =
     (if p c
      then (case bt (Plus p # r) s of
              Some (g # gs, rest) \<Rightarrow> Some ((c # g) # gs, rest)
            | _ \<Rightarrow> map_option (\<lambda>(gs, rest). ([c] # gs, rest)) (bt r s))
      else None)"

definition lit :: "string \<Rightarrow> item list" where
  "lit w = map (\<lambda>c. One (\<lambda>x. x = of_char c)) w"

text \<open>
  Without the \<open>s\<close> flag the dot matches every code unit except the four line terminators;
  \<open>\s\<close> matches the ECMAScript white space and line terminator code units.
\<close>

definition isLineTerminator :: "jschar \<Rightarrow> bool" where
  "isLineTerminator c \<longleftrightarrow> c \<in> {0x000A, 0x000D, 0x2028, 0x2029}"

definition isWhiteSpace :: "jschar \<Rightarrow> bool" where
  "isWhiteSpace c \<longleftrightarrow>
     c \<in> {0x0009, 0x000B, 0x000C, 0x0020, 0x00A0, 0x1680, 0x202F, 0x205F, 0x3000, 0xFEFF}
     \<or> (0x2000 \<le> c \<and> c \<le> 0x200A) \<or> isLineTerminator c"

text \<open>
  Item 0 is the opening bracket, item 1 is capture group 1 (\<open>[^\]]+\<close>), items 4 to 11 are
  capture group 2 (\<open>.comment\<close>, the dot unescaped as in the source), item 12 is \<open>\s+\<close> and
  item 18 is capture group 3 (\<open>[^"]+\<close>).
\<close>

definition commentSpanRegex :: "item list" where
  "commentSpanRegex =
     lit ''['' @ [Plus (\<lambda>c. c \<noteq> of_char CHR '']'')] @ lit '']{'' @
     [One (\<lambda>c. \<not> isLineTerminator c)] @ lit ''comment'' @
     [Plus isWhiteSpace] @ lit ''ref=\"'' @
     [Plus (\<lambda>c. c \<noteq> of_char CHR ''\"'')] @ lit ''\"}''"

text \<open>
  \<open>RegExp.prototype.exec\<close> of a global pattern: the start positions are tried from
  \<open>lastIndex\<close> upwards, the first position with a match wins. \<open>search\<close> walks the
  suffixes of the subject; \<open>i\<close> is the index of the suffix in the whole string.
\<close>

fun search :: "item list \<Rightarrow> jsstring \<Rightarrow> nat \<Rightarrow> (nat \<times> jsstring list \<times> jsstring) option" where
  "search rx [] i = (case bt rx [] of Some (gs, rest) \<Rightarrow> Some (i, gs, rest) | None \<Rightarrow> None)"
| "search rx (c # s) i =
     (case bt rx (c # s) of
        Some (gs, rest) \<Rightarrow> Some (i, gs, rest)
      | None \<Rightarrow> search rx s (Suc i))"

text \<open>
  The result of \<open>exec\<close> is \<open>match.index\<close>, the match array
  \<open>[match[0], match[1], match[2], match[3]]\<close> and the new \<open>lastIndex\<close> of the pattern.
\<close>

definition exec :: "jsstring \<Rightarrow> nat \<Rightarrow> (nat \<times> jsstring list \<times> nat) option" where
  "exec str lastIndex =
     (if length str < lastIndex then None
      else case search commentSpanRegex (drop lastIndex str) lastIndex of
             None \<Rightarrow> None
           | Some (index, gs, rest) \<Rightarrow>
               Some (index,
                     [concat gs, gs ! 1, concat (take 8 (drop 4 gs)), gs ! 18],
                     index + length (concat gs)))"

section \<open>The ProseMirror tree\<close>

datatype mark = CommentMark (commentId: jsstring)

datatype pm_inline = TextNode (pm_text: jsstring) (pm_marks: "mark list option")

datatype 'o pm_node =
    HeadingNode (level: nat) (heading_content: "pm_inline list")
  | ParagraphNode (paragraph_content: "pm_inline list")
  | QuartoBlock (qb_code: jsstring) (qb_chunkOptions: jsstring) (qb_htmlOutput: 'o)

fun pm_type :: "'o pm_node \<Rightarrow> string" where
  "pm_type (HeadingNode l c) = ''heading''"
| "pm_type (ParagraphNode c) = ''paragraph''"
| "pm_type (QuartoBlock c l h) = ''quartoBlock''"

record ('o, 'y) pm_doc =
  content :: "'o pm_node list"
  yaml :: 'y

section \<open>The markdown tree produced by remark\<close>

text \<open>
  Inline nodes: literals carry a \<open>value\<close>, parents carry children, the others carry
  neither. Fields the parser never reads (urls, titles, positions) are left out.
\<close>

datatype inline =
    Text jsstring
  | InlineCode jsstring
  | InlineHtml jsstring
  | Emphasis "inline list"
  | Strong "inline list"
  | Delete "inline list"
  | Link "inline list"
  | LinkReference "inline list"
  | Image
  | ImageReference
  | FootnoteReference
  | Break

text \<open>The \<open>value\<close> field of an inline node; \<open>None\<close> is \<open>undefined\<close>.\<close>

fun ivalue :: "inline \<Rightarrow> jsstring option" where
  "ivalue (Text v) = Some v"
| "ivalue (InlineCode v) = Some v"
| "ivalue (InlineHtml v) = Some v"
| "ivalue _ = None"

datatype unhandled_kind =
  Blockquote | ListBlock | Table | ThematicBreak | HtmlBlock | Definition | FootnoteDefinition

datatype block =
    Heading nat "inline list"
  | Paragraph "inline list"
  | Code "jsstring option" jsstring
  | Unhandled unhandled_kind

section \<open>\<open>qmdToProseMirror\<close>\<close>

subsection \<open>Span detection in a text child (lines 46 to 69)\<close>

lemma bt_consumed:
  "bt rx s = Some (gs, rest) \<Longrightarrow> s = concat gs @ rest \<and> length gs = length rx"
proof (induction rx s arbitrary: gs rest rule: bt.induct)
  case (5 p r c s)
  then show ?case
    by (auto split: if_splits option.splits list.splits prod.splits)
qed (auto split: if_splits)

lemma bt_One_nonempty:
  "bt (One p # r) s = Some (gs, rest) \<Longrightarrow> concat gs \<noteq> []"
  by (cases s) (auto split: if_splits)

lemma search_found:
  "search rx s i = Some (j, gs, rest) \<Longrightarrow>
     \<exists>k\<le>length s. j = i + k \<and> bt rx (drop k s) = Some (gs, rest)
        \<and> (\<forall>k'<k. bt rx (drop k' s) = None)"
proof (induction s arbitrary: i)
  case Nil
  then show ?case by (auto split: option.splits)
next
  case (Cons c s)
  show ?case
  proof (cases "bt rx (c # s)")
    case (Some r)
    with Cons.prems show ?thesis by (intro exI [of _ 0]) auto
  next
    case None
    with Cons.prems have "search rx s (Suc i) = Some (j, gs, rest)" by simp
    from Cons.IH [OF this] obtain k where k: "k \<le> length s" "j = Suc i + k"
      "bt rx (drop k s) = Some (gs, rest)" "\<forall>k'<k. bt rx (drop k' s) = None"
      by blast
    have "\<forall>k'<Suc k. bt rx (drop k' (c # s)) = None"
    proof (intro allI impI)
      fix k' assume "k' < Suc k"
      then show "bt rx (drop k' (c # s)) = None"
        using None k(4) by (cases k') auto
    qed
    with k show ?thesis by (intro exI [of _ "Suc k"]) auto
  qed
qed

lemma exec_bounds:
  assumes "exec str lastIndex = Some (index, m, lastIndex')"
  shows "lastIndex \<le> index \<and> index < lastIndex' \<and> lastIndex' \<le> length str"
proof -
  from assms have le: "lastIndex \<le> length str"
    by (auto simp: exec_def split: if_splits)
  from assms obtain gs rest where
    s: "search commentSpanRegex (drop lastIndex str) lastIndex = Some (index, gs, rest)"
    and l: "lastIndex' = index + length (concat gs)"
    by (auto simp: exec_def split: if_splits option.splits)
  from search_found [OF s] obtain k where k: "k \<le> length (drop lastIndex str)"
    "index = lastIndex + k" "bt commentSpanRegex (drop k (drop lastIndex str)) = Some (gs, rest)"
    by blast
  from bt_consumed [OF k(3)] have c: "drop k (drop lastIndex str) = concat gs @ rest" by simp
  obtain p r where "commentSpanRegex = One p # r"
    by (simp add: commentSpanRegex_def lit_def)
  with k(3) have "concat gs \<noteq> []"
    using bt_One_nonempty by metis
  moreover have "length (drop k (drop lastIndex str)) = length (concat gs) + length rest"
    using c by (metis length_append)
  ultimately show ?thesis using k(1,2) l le by auto
qed

text \<open>
  The \<open>while\<close> loop over the matches in one text child. \<open>lastIndex\<close> is the local
  variable of that name; it equals the pattern's own \<open>lastIndex\<close> at every test of the loop
  condition, since the pattern literal is evaluated afresh for every text child.
\<close>

function spanLoop :: "jsstring \<Rightarrow> nat \<Rightarrow> pm_inline list \<Rightarrow> pm_inline list" where
  "spanLoop textValue lastIndex paragraphContent =
     (case exec textValue lastIndex of
        None \<Rightarrow>
          (if lastIndex < length textValue
           then paragraphContent @ [TextNode (drop lastIndex textValue) None]
           else paragraphContent)
      | Some (index, match, lastIndex') \<Rightarrow>
          spanLoop textValue lastIndex'
            ((if lastIndex < index
              then paragraphContent @ [TextNode (substring textValue lastIndex index) None]
              else paragraphContent)
             @ [TextNode (match ! 1) (Some [CommentMark (match ! 3)])]))"
  by pat_completeness auto
termination
  by (relation "measure (\<lambda>(s, i, acc). length s - i)") (auto dest!: exec_bounds)

declare spanLoop.simps [simp del]

subsection \<open>Paragraph children (lines 41 to 75)\<close>

fun paragraphLoop :: "inline list \<Rightarrow> pm_inline list \<Rightarrow> pm_inline list" where
  "paragraphLoop [] paragraphContent = paragraphContent"
| "paragraphLoop (Text textValue # rest) paragraphContent =
     paragraphLoop rest (spanLoop textValue 0 paragraphContent)"
| "paragraphLoop (child # rest) paragraphContent =
     paragraphLoop rest
       (paragraphContent @
          [TextNode (case ivalue child of None \<Rightarrow> [] | Some v \<Rightarrow> v) None])"

subsection \<open>Heading text (line 34)\<close>

text \<open>
  \<open>node.children.map(c => c.value).join('')\<close>: \<open>join\<close> renders an \<open>undefined\<close> element
  as the empty string.
\<close>

definition headingText :: "inline list \<Rightarrow> jsstring" where
  "headingText cs = concat (map (\<lambda>c. case ivalue c of None \<Rightarrow> [] | Some v \<Rightarrow> v) cs)"

subsection \<open>The loop over the top-level blocks (lines 13 to 83)\<close>

datatype js_error = JsError jsstring

text \<open>
  The state of the loop: the nodes pushed so far and, as a trace of the one effect of the
  loop, the arguments of the calls of \<open>renderChunk\<close> made so far.
\<close>

record 'o pstate =
  proseMirrorNodes :: "'o pm_node list"
  renderCalls :: "(jsstring \<times> jsstring) list"

definition push :: "'o pm_node \<Rightarrow> 'o pstate \<Rightarrow> 'o pstate" where
  "push n st = st\<lparr>proseMirrorNodes := proseMirrorNodes st @ [n]\<rparr>"

text \<open>
  One iteration. The renderer \<open>render\<close> (\<open>renderChunk\<close> in the source) is awaited; when
  its promise rejects, the rejection leaves \<open>qmdToProseMirror\<close> (there is no \<open>try\<close> in the
  function). A \<open>lang\<close> of \<open>null\<close> or of the empty string is falsy.
\<close>

fun visit ::
  "(jsstring \<Rightarrow> jsstring \<Rightarrow> js_error + 'o) \<Rightarrow> 'o pstate \<Rightarrow> block \<Rightarrow> js_error + 'o pstate" where
  "visit render st (Code (Some chunkOptions) code) =
     (if chunkOptions \<noteq> []
      then (case render code chunkOptions of
              Inl e \<Rightarrow> Inl e
            | Inr htmlOutput \<Rightarrow>
                Inr (push (QuartoBlock code chunkOptions htmlOutput)
                       (st\<lparr>renderCalls := renderCalls st @ [(code, chunkOptions)]\<rparr>)))
      else Inr st)"
| "visit render st (Code None code) = Inr st"
| "visit render st (Heading depth children) =
     Inr (push (HeadingNode depth [TextNode (headingText children) None]) st)"
| "visit render st (Paragraph children) =
     Inr (push (ParagraphNode (paragraphLoop children [])) st)"
| "visit render st (Unhandled k) = Inr st"

fun convertLoop ::
  "(jsstring \<Rightarrow> jsstring \<Rightarrow> js_error + 'o) \<Rightarrow> 'o pstate \<Rightarrow> block list \<Rightarrow> js_error + 'o pstate" where
  "convertLoop render st [] = Inr st"
| "convertLoop render st (node # rest) =
     (case visit render st node of
        Inl e \<Rightarrow> Inl e
      | Inr st' \<Rightarrow> convertLoop render st' rest)"

subsection \<open>The function\<close>

text \<open>
  The collaborators of the parser: \<open>extractCommentsAppendix\<close> and \<open>renderChunk\<close> of this
  code base, \<open>matter\<close> (gray-matter, which throws on front matter that is not YAML) and
  the markdown parser of remark.
\<close>

record ('c, 'y, 'o) collaborators =
  extractCommentsAppendix :: "jsstring \<Rightarrow> 'c \<times> jsstring"
  matter :: "jsstring \<Rightarrow> js_error + ('y \<times> jsstring)"
  remarkParse :: "jsstring \<Rightarrow> block list"
  renderChunk :: "jsstring \<Rightarrow> jsstring \<Rightarrow> js_error + 'o"

record ('c, 'y, 'o) parse_result =
  prosemirrorJson :: "('o, 'y) pm_doc"
  comments :: 'c

definition qmdToProseMirror ::
  "('c, 'y, 'o) collaborators \<Rightarrow> jsstring \<Rightarrow> js_error + ('c, 'y, 'o) parse_result" where
  "qmdToProseMirror env qmdString =
     (case extractCommentsAppendix env qmdString of
        (comments', remainingQmdString) \<Rightarrow>
     (case matter env remainingQmdString of
        Inl e \<Rightarrow> Inl e
      | Inr (yaml', markdown) \<Rightarrow>
     (case convertLoop (renderChunk env)
             \<lparr>proseMirrorNodes = [], renderCalls = []\<rparr> (remarkParse env markdown) of
        Inl e \<Rightarrow> Inl e
      | Inr st \<Rightarrow>
          Inr \<lparr>prosemirrorJson = \<lparr>content = proseMirrorNodes st, yaml = yaml'\<rparr>,
               comments = comments'\<rparr>)))"

section \<open>The cache helpers of the integration test\<close>

subsection \<open>\<open>path.join\<close> and \<open>path.parse\<close> of Node (POSIX)\<close>

definition slash :: jschar where
  "slash = of_char CHR ''/''"

text \<open>
  \<open>normalizeString\<close> walks over the segments between the separators: empty segments and
  \<open>.\<close> are skipped, \<open>..\<close> removes the segment before it, or is kept when there is none
  to remove and the path is relative.
\<close>

fun splitSegments :: "jsstring \<Rightarrow> jsstring \<Rightarrow> jsstring list" where
  "splitSegments cur [] = [cur]"
| "splitSegments cur (c # s) =
     (if c = slash then cur # splitSegments [] s else splitSegments (cur @ [c]) s)"

fun joinSegments :: "jsstring list \<Rightarrow> jsstring" where
  "joinSegments [] = []"
| "joinSegments [seg] = seg"
| "joinSegments (seg # segs) = seg @ slash # joinSegments segs"

fun resolveSegments :: "bool \<Rightarrow> jsstring list \<Rightarrow> jsstring list \<Rightarrow> jsstring list" where
  "resolveSegments allowAboveRoot res [] = res"
| "resolveSegments allowAboveRoot res (seg # segs) =
     (if seg = [] \<or> seg = js ''.'' then resolveSegments allowAboveRoot res segs
      else if seg = js ''..'' then
        (if res \<noteq> [] \<and> last res \<noteq> js ''..''
         then resolveSegments allowAboveRoot (butlast res) segs
         else if allowAboveRoot then resolveSegments allowAboveRoot (res @ [js ''..'']) segs
         else resolveSegments allowAboveRoot res segs)
      else resolveSegments allowAboveRoot (res @ [seg]) segs)"

definition normalizeString :: "jsstring \<Rightarrow> bool \<Rightarrow> jsstring" where
  "normalizeString path allowAboveRoot =
     joinSegments (resolveSegments allowAboveRoot [] (splitSegments [] path))"

text \<open>
  \<open>path.normalize\<close>: the root and a trailing separator are put back around the normalized
  segments.
\<close>

definition path_normalize :: "jsstring \<Rightarrow> jsstring" where
  "path_normalize path =
     (if path = [] then js ''.''
      else
        let isAbsolute = (hd path = slash);
            trailingSeparator = (last path = slash);
            p = normalizeString path (\<not> isAbsolute)
        in if p = []
           then (if isAbsolute then js ''/'' else if trailingSeparator then js ''./'' else js ''.'')
           else (if isAbsolute then js ''/'' else []) @ p
                  @ (if trailingSeparator then js ''/'' else []))"

text \<open>\<open>path.join\<close>: the non-empty arguments, joined by separators, are normalized.\<close>

definition path_join :: "jsstring list \<Rightarrow> jsstring" where
  "path_join args =
     (case filter (\<lambda>arg. arg \<noteq> []) args of
        [] \<Rightarrow> js ''.''
      | joined \<Rightarrow> path_normalize (joinSegments joined))"

text \<open>
  The \<open>name\<close> of \<open>path.parse\<close>: the last component without its extension. The scan runs
  from the end of the path down to index \<open>start\<close>, past trailing separators, to the
  separator in front of the last component; \<open>startPart\<close> stays 0 when it meets none. The
  component has no extension when it has no dot, when its last dot is its first code
  unit, or when it is \<open>..\<close> (the test that compares \<open>startDot\<close> with \<open>startPart + 1\<close>).
\<close>

definition path_parse_name :: "jsstring \<Rightarrow> jsstring" where
  "path_parse_name path =
     (let isAbsolute = (path \<noteq> [] \<and> hd path = slash);
          start = (if isAbsolute then 1 else 0);
          scanned = rev (dropWhile (\<lambda>c. c = slash) (rev (drop start path)));
          base = rev (takeWhile (\<lambda>c. c \<noteq> slash) (rev scanned));
          baseStart = start + (length scanned - length base);
          startPart = (if slash \<in> set scanned then baseStart else 0);
          ext = takeWhile (\<lambda>c. c \<noteq> of_char CHR ''.'') (rev base);
          preDot = take (length base - length ext - 1) base;
          startDot = baseStart + length preDot
      in if of_char CHR ''.'' \<notin> set base \<or> preDot = []
            \<or> (hd preDot = of_char CHR ''.'' \<and> ext = [] \<and> startDot = startPart + 1)
         then base
         else preDot)"

subsection \<open>The helpers (\<open>part_000\<close>, lines 10 to 64)\<close>

text \<open>
  What a module sees of the process it runs in: its directory (\<open>__dirname\<close>, an absolute
  path), the process id and the clock. The helpers read \<open>__dirname\<close> only.
\<close>

record runtime =
  dirname :: jsstring
  pid :: nat
  now :: nat

definition CACHE_DIR :: "runtime \<Rightarrow> jsstring" where
  "CACHE_DIR rt = path_join [dirname rt, js ''../cache'']"

definition CACHE_DIR_RENDERED_DOCS :: "runtime \<Rightarrow> jsstring" where
  "CACHE_DIR_RENDERED_DOCS rt = path_join [CACHE_DIR rt, js ''rendered_docs'']"

text \<open>
  \<open>crypto.createHash('md5').update(docFilepath).digest('hex')\<close>: the digest function is the
  parameter \<open>md5\<close>, which gives the 128-bit digest of the path; \<open>digestHex\<close> writes a digest as
  32 lower-case hexadecimal digits, the most significant first.
\<close>

definition digestHex :: "128 word \<Rightarrow> jsstring" where
  "digestHex w =
     map (\<lambda>k. js ''0123456789abcdef'' ! (unat (drop_bit (4 * k) w) mod 16)) (rev [0..<32])"

definition calculateCacheFilename ::
  "runtime \<Rightarrow> (jsstring \<Rightarrow> 128 word) \<Rightarrow> jsstring \<Rightarrow> jsstring \<Rightarrow> jsstring \<Rightarrow> jsstring" where
  "calculateCacheFilename rt md5 repoId docFilepath commitHash =
     (let filepathHash = digestHex (md5 docFilepath)
      in path_join [CACHE_DIR_RENDERED_DOCS rt,
                    repoId @ js ''-'' @ filepathHash @ js ''-'' @ commitHash @ js ''.json''])"

definition calculateAssetCacheDir ::
  "runtime \<Rightarrow> jsstring \<Rightarrow> jsstring \<Rightarrow> jsstring \<Rightarrow> jsstring" where
  "calculateAssetCacheDir rt repoId docFilename commitHash =
     path_join [CACHE_DIR rt, js ''assets'', repoId, commitHash,
                path_parse_name docFilename @ js ''_files'']"

text \<open>A path segment that normalization leaves alone.\<close>

definition cleanSegment :: "jsstring \<Rightarrow> bool" where
  "cleanSegment seg \<longleftrightarrow>
     seg \<noteq> [] \<and> slash \<notin> set seg \<and> seg \<noteq> js ''.'' \<and> seg \<noteq> js ''..''"

text \<open>An example process: the test module lives in \<open>/srv/backend/test\<close>.\<close>

definition exampleRuntime :: runtime where
  "exampleRuntime = \<lparr>dirname = js ''/srv/backend/test'', pid = 4711, now = 1000\<rparr>"

section \<open>Notions used to state the properties\<close>

subsection \<open>The span-detection pass as a whole\<close>

text \<open>The segments the pass adds for one text child, starting from empty content.\<close>

definition commentSpans :: "jsstring \<Rightarrow> pm_inline list" where
  "commentSpans textValue = spanLoop textValue 0 []"

text \<open>The marked segment of a match, from the texts consumed by the items.\<close>

definition markedNode :: "jsstring list \<Rightarrow> pm_inline" where
  "markedNode gs = TextNode (gs ! 1) (Some [CommentMark (gs ! 18)])"

text \<open>
  A code unit in front of a scanned text joins the leading unmarked segment, or
  becomes one when the scanned text starts with a marked segment or is empty.
\<close>

fun prependChar :: "jschar \<Rightarrow> pm_inline list \<Rightarrow> pm_inline list" where
  "prependChar c (TextNode t None # r) = TextNode (c # t) None # r"
| "prependChar c r = TextNode [c] None # r"

text \<open>The pattern matches at position \<open>k\<close> of \<open>s\<close>.\<close>

definition matchesAt :: "jsstring \<Rightarrow> nat \<Rightarrow> bool" where
  "matchesAt s k \<longleftrightarrow> bt commentSpanRegex (drop k s) \<noteq> None"

subsection \<open>Markers\<close>

text \<open>
  The text of a marker with inner text \<open>t\<close>, the code unit \<open>d\<close> in front of \<open>comment\<close>,
  the white space \<open>ws\<close> and the id \<open>i\<close>; the texts its items consume; the conditions the
  character classes of the pattern put on the parts.
\<close>

definition markerText :: "jsstring \<Rightarrow> jschar \<Rightarrow> jsstring \<Rightarrow> jsstring \<Rightarrow> jsstring" where
  "markerText t d ws i =
     js ''['' @ t @ js '']{'' @ [d] @ js ''comment'' @ ws @ js ''ref=\"'' @ i @ js ''\"}''"

definition markerGroups :: "jsstring \<Rightarrow> jschar \<Rightarrow> jsstring \<Rightarrow> jsstring \<Rightarrow> jsstring list" where
  "markerGroups t d ws i =
     map (\<lambda>c. [c]) (js ''['') @ [t] @ map (\<lambda>c. [c]) (js '']{'') @ [[d]] @
     map (\<lambda>c. [c]) (js ''comment'') @ [ws] @ map (\<lambda>c. [c]) (js ''ref=\"'') @ [i] @
     map (\<lambda>c. [c]) (js ''\"}'')"

definition markerParts :: "jsstring \<Rightarrow> jschar \<Rightarrow> jsstring \<Rightarrow> jsstring \<Rightarrow> bool" where
  "markerParts t d ws i \<longleftrightarrow>
     t \<noteq> [] \<and> of_char CHR '']'' \<notin> set t \<and> \<not> isLineTerminator d \<and>
     ws \<noteq> [] \<and> list_all isWhiteSpace ws \<and>
     i \<noteq> [] \<and> of_char CHR ''\"'' \<notin> set i"

text \<open>
  The marker exactly as the specification writes it,
  \<^verbatim>\<open>[<text>]{.comment ref="<id>"}\<close>: a dot and a single space.
\<close>

definition exactMarker :: "jsstring \<Rightarrow> jsstring \<Rightarrow> jsstring" where
  "exactMarker t i = js ''['' @ t @ js '']{.comment ref=\"'' @ i @ js ''\"}''"

subsection \<open>Replacing the markers by their inner texts\<close>

text \<open>
  What the specification says about a run, written without the pattern of the source: a
  marker is read off the text piece by piece. \<open>literal l s\<close> is what follows the text \<open>l\<close>
  at the start of \<open>s\<close>; \<open>runWithout x s\<close> splits a non-empty run of code units other than
  \<open>x\<close> off the start of \<open>s\<close>; \<open>gap\<close> is what separates \<open>.comment\<close> from \<open>ref\<close>: exactly one
  space when the marker is read in its exact form, one or more white-space code units
  otherwise.
\<close>

definition literal :: "jsstring \<Rightarrow> jsstring \<Rightarrow> jsstring option" where
  "literal l s = (if prefix l s then Some (drop (length l) s) else None)"

definition runWithout :: "jschar \<Rightarrow> jsstring \<Rightarrow> (jsstring \<times> jsstring) option" where
  "runWithout x s =
     (if takeWhile (\<lambda>c. c \<noteq> x) s = [] then None
      else Some (takeWhile (\<lambda>c. c \<noteq> x) s, dropWhile (\<lambda>c. c \<noteq> x) s))"

definition gap :: "bool \<Rightarrow> jsstring \<Rightarrow> jsstring option" where
  "gap exact s =
     (if exact then literal (js '' '') s
      else if takeWhile isWhiteSpace s = [] then None
      else Some (dropWhile isWhiteSpace s))"

text \<open>
  The marker \<^verbatim>\<open>[t]{.comment ref="id"}\<close> at the start of a text: its inner text \<open>t\<close>, its
  \<open>id\<close> and the text behind it. The inner text is a non-empty run without \<open>]\<close>, the id a
  non-empty run without a double quote; the dot is a dot.
\<close>

definition markerAt :: "bool \<Rightarrow> jsstring \<Rightarrow> (jsstring \<times> jsstring \<times> jsstring) option" where
  "markerAt exact s =
     (case literal (js ''['') s of None \<Rightarrow> None | Some r0 \<Rightarrow>
      case runWithout (of_char CHR '']'') r0 of None \<Rightarrow> None | Some (t, r1) \<Rightarrow>
      case literal (js '']{.comment'') r1 of None \<Rightarrow> None | Some r2 \<Rightarrow>
      case gap exact r2 of None \<Rightarrow> None | Some r3 \<Rightarrow>
      case literal (js ''ref=\"'') r3 of None \<Rightarrow> None | Some r4 \<Rightarrow>
      case runWithout (of_char CHR ''\"'') r4 of None \<Rightarrow> None | Some (i, r5) \<Rightarrow>
      case literal (js ''\"}'') r5 of None \<Rightarrow> None | Some rest \<Rightarrow> Some (t, i, rest))"

lemma literal_iff: "literal l s = Some r \<longleftrightarrow> s = l @ r"
  by (auto simp: literal_def prefix_def)

lemma runWithout_D:
  "runWithout x s = Some (t, r) \<Longrightarrow> t \<noteq> [] \<and> x \<notin> set t \<and> s = t @ r"
  by (auto simp: runWithout_def split: if_splits dest: set_takeWhileD)

lemma gap_D:
  "gap exact s = Some r \<Longrightarrow> \<exists>ws. ws \<noteq> [] \<and> list_all isWhiteSpace ws \<and> s = ws @ r"
proof (cases exact)
  case True
  assume "gap exact s = Some r"
  with True have "s = js '' '' @ r" by (simp add: gap_def literal_iff)
  moreover have "list_all isWhiteSpace (js '' '')" "js '' '' \<noteq> []"
    by (simp_all add: js_def isWhiteSpace_def)
  ultimately show ?thesis by blast
next
  case False
  assume "gap exact s = Some r"
  with False have "takeWhile isWhiteSpace s \<noteq> []" "r = dropWhile isWhiteSpace s"
    by (auto simp: gap_def split: if_splits)
  moreover have "list_all isWhiteSpace (takeWhile isWhiteSpace s)"
    by (auto simp: list_all_iff dest: set_takeWhileD)
  ultimately show ?thesis
    by (metis takeWhile_dropWhile_id)
qed

text \<open>What \<open>markerAt\<close> accepts is a marker, in the white-space form or in the exact one.\<close>

lemma markerAt_D:
  assumes "markerAt exact s = Some (t, i, rest)"
  shows "\<exists>ws. markerParts t (of_char CHR ''.'') ws i
            \<and> s = markerText t (of_char CHR ''.'') ws i @ rest
            \<and> (exact \<longrightarrow> ws = js '' '')"
proof -
  from assms obtain r0 r1 r2 r3 r4 r5 where
    1: "literal (js ''['') s = Some r0" and
    2: "runWithout (of_char CHR '']'') r0 = Some (t, r1)" and
    3: "literal (js '']{.comment'') r1 = Some r2" and
    4: "gap exact r2 = Some r3" and
    5: "literal (js ''ref=\"'') r3 = Some r4" and
    6: "runWithout (of_char CHR ''\"'') r4 = Some (i, r5)" and
    7: "literal (js ''\"}'') r5 = Some rest"
    by (auto simp: markerAt_def split: option.splits)
  from gap_D [OF 4] obtain ws where ws: "ws \<noteq> []" "list_all isWhiteSpace ws" "r2 = ws @ r3"
    by blast
  have e: "exact \<longrightarrow> ws = js '' ''"
    using 4 ws(3) by (auto simp: gap_def literal_iff)
  have "markerParts t (of_char CHR ''.'') ws i"
    using runWithout_D [OF 2] runWithout_D [OF 6] ws
    by (simp add: markerParts_def isLineTerminator_def)
  moreover have "s = markerText t (of_char CHR ''.'') ws i @ rest"
    using 1 3 5 7 runWithout_D [OF 2] runWithout_D [OF 6] ws(3)
    by (simp add: literal_iff markerText_def js_def)
  ultimately show ?thesis using e by blast
qed

lemma markerAt_shorter:
  assumes "markerAt exact s = Some (t, i, rest)"
  shows "length rest < length s"
proof -
  from markerAt_D [OF assms] obtain ws where
    "s = markerText t (of_char CHR ''.'') ws i @ rest" by blast
  then show ?thesis by (simp add: markerText_def js_def)
qed

text \<open>
  The run with each marker replaced by its inner text, the markers taken from left to
  right, all other code units kept. With \<open>exact\<close> the markers are those of the exact form
  \<^verbatim>\<open>[t]{.comment ref="id"}\<close>, with one space; without, those with any white space in its
  place.
\<close>

function replaceMarkers :: "bool \<Rightarrow> jsstring \<Rightarrow> jsstring" where
  "replaceMarkers exact s =
     (case markerAt exact s of
        Some (t, i, rest) \<Rightarrow> t @ replaceMarkers exact rest
      | None \<Rightarrow> (case s of [] \<Rightarrow> [] | c # s' \<Rightarrow> c # replaceMarkers exact s'))"
  by pat_completeness auto
termination
  by (relation "measure (\<lambda>(exact, s). length s)") (auto dest: markerAt_shorter)

declare replaceMarkers.simps [simp del]

text \<open>
  The run contains a text that differs from a marker only by the code unit in the place
  of the dot: \<^verbatim>\<open>[t]{\<close>, a code unit other than a dot, \<^verbatim>\<open>comment\<close>, white space,
  \<^verbatim>\<open>ref="id"}\<close>.
\<close>

definition otherThanDot :: "jsstring \<Rightarrow> bool" where
  "otherThanDot s \<longleftrightarrow>
     (\<exists>t d ws i. markerParts t d ws i \<and> d \<noteq> of_char CHR ''.''
        \<and> sublist (markerText t d ws i) s)"


subsection \<open>Blocks\<close>

text \<open>What one block contributes to the tree: the nodes its iteration pushes.\<close>

definition blockNodes :: "(jsstring \<Rightarrow> jsstring \<Rightarrow> js_error + 'o) \<Rightarrow> block \<Rightarrow> 'o pm_node list" where
  "blockNodes render b =
     (case visit render \<lparr>proseMirrorNodes = [], renderCalls = []\<rparr> b of
        Inl e \<Rightarrow> []
      | Inr st \<Rightarrow> proseMirrorNodes st)"

text \<open>
  The blocks the loop handles: headings, paragraphs and code blocks with a language tag.
\<close>

fun handled :: "block \<Rightarrow> bool" where
  "handled (Heading d cs) = True"
| "handled (Paragraph cs) = True"
| "handled (Code l v) = (case l of None \<Rightarrow> False | Some chunkOptions \<Rightarrow> chunkOptions \<noteq> [])"
| "handled (Unhandled k) = False"

text \<open>The renderer returns for the chunk of the block, when the block is one.\<close>

fun renders :: "(jsstring \<Rightarrow> jsstring \<Rightarrow> js_error + 'o) \<Rightarrow> block \<Rightarrow> bool" where
  "renders render (Code (Some chunkOptions) code) =
     (chunkOptions = [] \<or> \<not> isl (render code chunkOptions))"
| "renders render b = True"

text \<open>
  The flattened plain text of an inline node: the value of a literal, the texts of the
  children of a parent, in order. (The alternative text of an image is not part of the
  model.)
\<close>

fun plainText :: "inline \<Rightarrow> jsstring" where
  "plainText (Text v) = v"
| "plainText (InlineCode v) = v"
| "plainText (InlineHtml v) = v"
| "plainText (Emphasis cs) = concat (map plainText cs)"
| "plainText (Strong cs) = concat (map plainText cs)"
| "plainText (Delete cs) = concat (map plainText cs)"
| "plainText (Link cs) = concat (map plainText cs)"
| "plainText (LinkReference cs) = concat (map plainText cs)"
| "plainText Image = []"
| "plainText ImageReference = []"
| "plainText FootnoteReference = []"
| "plainText Break = []"

subsection \<open>The output of a chunk\<close>

text \<open>
  What a chunk renderer returns in the examples: rendered HTML, or a value that stands
  for a failure of the execution.
\<close>

datatype chunk_output = Html jsstring | ErrorPayload js_error

section \<open>Two example documents\<close>

text \<open>
  The scenario of the specification, and a document with front matter, a chunk, a list, a
  code block without language tag and a paragraph with bold text. The example
  collaborators answer on these documents as the real ones do: no comments appendix, the
  front matter split off, the markdown tree of the body, and a chunk renderer that
  returns an error payload as the output of every chunk.
\<close>

definition scenarioBody :: jsstring where
  "scenarioBody = js ''# T\<newline>Hello [world]{.comment ref=\"c1\"}''"

definition scenarioTree :: "block list" where
  "scenarioTree =
     [Heading 1 [Text (js ''T'')],
      Paragraph [Text (js ''Hello [world]{.comment ref=\"c1\"}'')]]"

definition exampleBody :: jsstring where
  "exampleBody =
     js ''# T\<newline>```{r}\<newline>stop()\<newline>```\<newline>- item\<newline>\<newline>```\<newline>plain\<newline>```\<newline>Hello **you**''"

definition exampleTree :: "block list" where
  "exampleTree =
     [Heading 1 [Text (js ''T'')],
      Code (Some (js ''{r}'')) (js ''stop()''),
      Unhandled ListBlock,
      Code None (js ''plain''),
      Paragraph [Text (js ''Hello ''), Strong [Text (js ''you'')]]]"

definition exampleSource :: jsstring where
  "exampleSource = js ''---\<newline>title: Demo\<newline>---\<newline>'' @ exampleBody"

definition exampleEnv ::
  "(jsstring list, (jsstring \<times> jsstring) list, chunk_output) collaborators" where
  "exampleEnv =
     \<lparr>extractCommentsAppendix = (\<lambda>qmd. ([], qmd)),
      matter = (\<lambda>qmd. if qmd = exampleSource
                          then Inr ([(js ''title'', js ''Demo'')], exampleBody)
                          else Inr ([], qmd)),
      remarkParse = (\<lambda>md. if md = exampleBody then exampleTree
                            else if md = scenarioBody then scenarioTree else []),
      renderChunk = (\<lambda>code chunkOptions. Inr (ErrorPayload (JsError (js ''halted''))))\<rparr>"

text \<open>The same collaborators, with a chunk renderer that rejects.\<close>

definition rejectingEnv ::
  "(jsstring list, (jsstring \<times> jsstring) list, chunk_output) collaborators" where
  "rejectingEnv = exampleEnv\<lparr>renderChunk := (\<lambda>code chunkOptions. Inl (JsError (js ''halted'')))\<rparr>"

text \<open>
  A document whose front matter is not YAML: a flow sequence is left open. gray-matter
  throws on it at the first call. It has put the unsplit file into its cache by then, and
  answers a repeated call from there: no data, and the whole text as content, which
  remark reads as a thematic break and two headings, the first one a setext heading made
  of the front-matter line.
\<close>

definition malformedSource :: jsstring where
  "malformedSource = js ''---\<newline>title: [unclosed\<newline>---\<newline># T''"

definition firstCallEnv ::
  "(jsstring list, (jsstring \<times> jsstring) list, chunk_output) collaborators" where
  "firstCallEnv = exampleEnv\<lparr>matter := (\<lambda>qmd. Inl (JsError (js ''YAMLException'')))\<rparr>"

definition repeatCallEnv ::
  "(jsstring list, (jsstring \<times> jsstring) list, chunk_output) collaborators" where
  "repeatCallEnv =
     exampleEnv\<lparr>matter := (\<lambda>qmd. Inr ([], qmd)),
                remarkParse := (\<lambda>md. if md = malformedSource
                   then [Unhandled ThematicBreak,
                         Heading 2 [Text (js ''title: [unclosed'')],
                         Heading 1 [Text (js ''T'')]]
                   else [])\<rparr>"

section \<open>Properties of the pattern\<close>

lemma bt_One_iff:
  "bt (One p # r) s = Some (gs, rest) \<longleftrightarrow>
     (\<exists>c s' gs'. s = c # s' \<and> p c \<and> gs = [c] # gs' \<and> bt r s' = Some (gs', rest))"
  by (cases s) auto

text \<open>
  When the item after a \<open>Plus\<close> accepts no code unit of the repeated class, giving code
  units back never helps: the repetition takes the longest run and the match is decided
  there.
\<close>

lemma bt_Plus_greedy:
  assumes disj: "\<And>c. q c \<Longrightarrow> \<not> p c"
  shows "bt (Plus p # One q # r) s =
     (if takeWhile p s = [] then None
      else map_option (\<lambda>(gs, rest). (takeWhile p s # gs, rest)) (bt (One q # r) (dropWhile p s)))"
proof (induction s)
  case Nil
  then show ?case by simp
next
  case (Cons c s)
  show ?case
  proof (cases "p c")
    case False
    then show ?thesis by simp
  next
    case True
    show ?thesis
    proof (cases "takeWhile p s = []")
      case tw: True
      then have "dropWhile p s = s"
        by (metis append_Nil takeWhile_dropWhile_id)
      with tw True Cons show ?thesis by simp
    next
      case tw: False
      then obtain c' s' where s: "s = c' # s'" and pc': "p c'"
        by (cases s) (auto split: if_splits)
      then have "\<not> q c'" using disj by blast
      then have fb: "bt (One q # r) s = None" by (simp add: s)
      show ?thesis
        using True tw Cons fb
        by (auto split: option.splits list.splits simp: map_option_case)
    qed
  qed
qed

lemma bt_Plus_iff:
  assumes disj: "\<And>c. q c \<Longrightarrow> \<not> p c"
  shows "bt (Plus p # One q # r) s = Some (gs, rest) \<longleftrightarrow>
     (\<exists>run s' gs'. s = run @ s' \<and> run \<noteq> [] \<and> (\<forall>c\<in>set run. p c) \<and> gs = run # gs'
        \<and> bt (One q # r) s' = Some (gs', rest))"
    (is "?L \<longleftrightarrow> ?R")
proof
  note eq = bt_Plus_greedy [of q p r s, OF disj]
  assume ?L
  with eq have ne: "takeWhile p s \<noteq> []"
    and m: "map_option (\<lambda>(gs, rest). (takeWhile p s # gs, rest)) (bt (One q # r) (dropWhile p s))
              = Some (gs, rest)"
    by (auto split: if_splits)
  from m obtain gs' where "gs = takeWhile p s # gs'"
    and "bt (One q # r) (dropWhile p s) = Some (gs', rest)"
    by auto
  moreover have "s = takeWhile p s @ dropWhile p s" by simp
  moreover have "\<forall>c\<in>set (takeWhile p s). p c" by (auto dest: set_takeWhileD)
  ultimately show ?R using ne by blast
next
  note eq = bt_Plus_greedy [of q p r s, OF disj]
  assume ?R
  then obtain run s' gs' where s: "s = run @ s'" and ne: "run \<noteq> []"
    and all: "\<forall>c\<in>set run. p c"
    and gs: "gs = run # gs'" and m: "bt (One q # r) s' = Some (gs', rest)"
    by blast
  from m obtain c s'' where s': "s' = c # s''" and qc: "q c"
    by (auto simp: bt_One_iff)
  then have npc: "\<not> p c" using disj by blast
  have tw: "takeWhile p s = run" and dw: "dropWhile p s = s'"
    using all npc by (simp_all add: s s')
  show ?L
    using ne m eq by (simp add: tw dw gs)
qed

lemma not_isWhiteSpace_r: "\<not> isWhiteSpace 114"
  by (simp add: isWhiteSpace_def isLineTerminator_def)

lemma bt_Plus_iff_except:
  "bt (Plus (\<lambda>c. c \<noteq> x) # One (\<lambda>c. c = x) # r) s = Some (gs, rest) \<longleftrightarrow>
     (\<exists>run s' gs'. s = run @ s' \<and> run \<noteq> [] \<and> x \<notin> set run \<and> gs = run # gs'
        \<and> bt (One (\<lambda>c. c = x) # r) s' = Some (gs', rest))"
  by (subst bt_Plus_iff) auto

lemma bt_Plus_iff_ws:
  "bt (Plus isWhiteSpace # One (\<lambda>c. c = 114) # r) s = Some (gs, rest) \<longleftrightarrow>
     (\<exists>run s' gs'. s = run @ s' \<and> run \<noteq> [] \<and> list_all isWhiteSpace run \<and> gs = run # gs'
        \<and> bt (One (\<lambda>c. c = 114) # r) s' = Some (gs', rest))"
  by (subst bt_Plus_iff) (auto simp: not_isWhiteSpace_r list_all_iff)

lemma bt_Plus_run:
  assumes "\<And>c. q c \<Longrightarrow> \<not> p c" "run \<noteq> []" "\<forall>c\<in>set run. p c" "q c"
  shows "bt (Plus p # One q # r) (run @ c # s') =
           map_option (\<lambda>(gs, rest). (run # [c] # gs, rest)) (bt r s')"
proof -
  have "\<not> p c" using assms by blast
  then have "takeWhile p (run @ c # s') = run" "dropWhile p (run @ c # s') = c # s'"
    using assms(3) by simp_all
  then show ?thesis
    using assms(2,4)
    by (simp add: bt_Plus_greedy [of q p, OF assms(1)] option.map_comp comp_def split_def)
qed

lemma bt_Plus_run_except:
  assumes "run \<noteq> []" "x \<notin> set run"
  shows "bt (Plus (\<lambda>c. c \<noteq> x) # One (\<lambda>c. c = x) # r) (run @ x # s') =
           map_option (\<lambda>(gs, rest). (run # [x] # gs, rest)) (bt r s')"
  using assms by (subst bt_Plus_run) auto

lemma bt_Plus_run_ws:
  assumes "run \<noteq> []" "list_all isWhiteSpace run"
  shows "bt (Plus isWhiteSpace # One (\<lambda>c. c = 114) # r) (run @ 114 # s') =
           map_option (\<lambda>(gs, rest). (run # [114] # gs, rest)) (bt r s')"
  using assms by (subst bt_Plus_run) (auto simp: not_isWhiteSpace_r list_all_iff)

text \<open>The pattern matches at the start of a text exactly when the text starts with a marker.\<close>

lemma bt_marker:
  assumes "markerParts t d ws i"
  shows "bt commentSpanRegex (markerText t d ws i @ rest) = Some (markerGroups t d ws i, rest)"
  using assms
  by (simp add: commentSpanRegex_def lit_def bt_Plus_run_except bt_Plus_run_ws
        markerText_def markerGroups_def markerParts_def js_def)

lemma bt_commentSpanRegex_D:
  assumes "bt commentSpanRegex s = Some (gs, rest)"
  shows "\<exists>t d ws i. markerParts t d ws i \<and> s = markerText t d ws i @ rest
           \<and> gs = markerGroups t d ws i"
  using assms
  apply (simp add: commentSpanRegex_def lit_def bt_One_iff bt_Plus_iff_except bt_Plus_iff_ws
           markerText_def markerGroups_def markerParts_def js_def)
  apply (elim exE conjE)
  apply hypsubst
  apply (intro exI conjI)
            apply auto
  done

lemma markedNode_markerGroups:
  "markedNode (markerGroups t d ws i) = TextNode t (Some [CommentMark i])"
  by (simp add: markedNode_def markerGroups_def js_def)

section \<open>Properties of the span-detection pass\<close>

lemma search_shift:
  "search rx s i = map_option (\<lambda>(j, gs, rest). (i + j, gs, rest)) (search rx s 0)"
proof (induction s arbitrary: i)
  case Nil
  show ?case by (simp split: option.splits)
next
  case (Cons c s)
  show ?case
  proof (cases "bt rx (c # s)")
    case None
    then show ?thesis
      using Cons.IH [of "Suc i"] Cons.IH [of "Suc 0"]
      by (simp add: option.map_comp comp_def split_def)
  next
    case (Some r)
    then show ?thesis by (simp split: prod.splits)
  qed
qed

lemma exec_shift:
  assumes "lastIndex \<le> length str"
  shows "exec str lastIndex =
           map_option (\<lambda>(index, m, e). (lastIndex + index, m, lastIndex + e))
             (exec (drop lastIndex str) 0)"
proof -
  have "search commentSpanRegex (drop lastIndex str) lastIndex =
          map_option (\<lambda>(j, gs, rest). (lastIndex + j, gs, rest))
            (search commentSpanRegex (drop lastIndex str) 0)"
    by (rule search_shift)
  then show ?thesis
    using assms by (simp add: exec_def split: option.splits)
qed

lemma substring_take_drop:
  "a \<le> b \<Longrightarrow> b \<le> length s \<Longrightarrow> substring s a b = take (b - a) (drop a s)"
  by (simp add: substring_def Let_def min_def max_def)

lemma spanLoop_step:
  "spanLoop s i acc =
     (case exec s i of
        None \<Rightarrow> acc @ (if i < length s then [TextNode (drop i s) None] else [])
      | Some (index, m, e) \<Rightarrow>
          spanLoop s e
            (acc @ (if i < index then [TextNode (substring s i index) None] else [])
                 @ [TextNode (m ! 1) (Some [CommentMark (m ! 3)])]))"
  by (subst spanLoop.simps) (simp split: option.splits)

text \<open>The content pushed before the text child is only ever extended.\<close>

lemma spanLoop_acc:
  "spanLoop s i acc = acc @ spanLoop s i []"
proof (induction "length s - i" arbitrary: i acc rule: less_induct)
  case less
  show ?case
  proof (cases "exec s i")
    case None
    then show ?thesis by (simp add: spanLoop_step [of s i])
  next
    case (Some r)
    obtain index m e where r: "r = (index, m, e)" by (cases r)
    from exec_bounds [OF Some [unfolded r]] have "length s - e < length s - i" by auto
    note ih = less.hyps [OF this]
    define new where "new = (if i < index then [TextNode (substring s i index) None] else [])
                 @ [TextNode (m ! 1) (Some [CommentMark (m ! 3)])]"
    have "spanLoop s i acc = spanLoop s e (acc @ new)"
      by (subst spanLoop_step) (simp add: Some r new_def)
    also have "\<dots> = acc @ new @ spanLoop s e []"
      by (subst ih) simp
    also have "new @ spanLoop s e [] = spanLoop s e new"
      by (subst (2) ih) simp
    also have "spanLoop s e new = spanLoop s i []"
      by (subst (2) spanLoop_step) (simp add: Some r new_def)
    finally show ?thesis .
  qed
qed

text \<open>Going on at \<open>lastIndex\<close> is scanning the text behind \<open>lastIndex\<close> afresh.\<close>

lemma spanLoop_suffix:
  "i \<le> length s \<Longrightarrow> spanLoop s i [] = spanLoop (drop i s) 0 []"
proof (induction "length s - i" arbitrary: s i rule: less_induct)
  case less
  note le = less.prems
  note sh = exec_shift [OF le]
  show ?case
  proof (cases "exec (drop i s) 0")
    case None
    with sh have "exec s i = None" by simp
    with None show ?thesis using le
      by (simp add: spanLoop_step [of s i] spanLoop_step [of "drop i s" 0])
  next
    case (Some r)
    obtain index m e where r: "r = (index, m, e)" by (cases r)
    from sh Some r have ex: "exec s i = Some (i + index, m, i + e)" by simp
    from exec_bounds [OF Some [unfolded r]]
    have b: "index < e" "e \<le> length s - i" by auto
    define new where "new = (if 0 < index then [TextNode (take index (drop i s)) None] else [])
                 @ [TextNode (m ! 1) (Some [CommentMark (m ! 3)])]"
    have sub1: "substring s i (i + index) = take index (drop i s)"
      using b le by (simp add: substring_take_drop)
    have sub2: "substring (drop i s) 0 index = take index (drop i s)"
      using b le by (simp add: substring_take_drop)
    have "spanLoop s i [] = spanLoop s (i + e) new"
      by (subst spanLoop_step) (simp add: ex new_def sub1)
    also have "\<dots> = new @ spanLoop s (i + e) []"
      by (rule spanLoop_acc)
    also have "spanLoop s (i + e) [] = spanLoop (drop (i + e) s) 0 []"
      using b le by (intro less.hyps) auto
    also have "drop (i + e) s = drop e (drop i s)"
      by (simp add: add.commute)
    also have "spanLoop (drop e (drop i s)) 0 [] = spanLoop (drop i s) e []"
      using b le by (intro less.hyps [symmetric]) auto
    also have "new @ spanLoop (drop i s) e [] = spanLoop (drop i s) e new"
      by (rule spanLoop_acc [symmetric])
    also have "\<dots> = spanLoop (drop i s) 0 []"
      by (subst (2) spanLoop_step) (simp add: Some r new_def sub2)
    finally show ?thesis .
  qed
qed

lemma exec_0_match:
  assumes "bt commentSpanRegex s = Some (gs, rest)"
  shows "exec s 0 = Some (0, [concat gs, gs ! 1, concat (take 8 (drop 4 gs)), gs ! 18],
                          length (concat gs))"
  using assms by (cases s) (simp_all add: exec_def)

lemma exec_0_Cons:
  assumes "bt commentSpanRegex (c # s) = None"
  shows "exec (c # s) 0 = map_option (\<lambda>(index, m, e). (Suc index, m, Suc e)) (exec s 0)"
  using assms search_shift [of commentSpanRegex s "Suc 0"]
  by (simp add: exec_def split: option.splits)

lemma commentSpans_match:
  assumes "bt commentSpanRegex s = Some (gs, rest)"
  shows "commentSpans s = markedNode gs # commentSpans rest"
proof -
  from bt_consumed [OF assms] have s: "s = concat gs @ rest" by simp
  have "spanLoop s 0 [] = spanLoop s (length (concat gs)) [markedNode gs]"
    by (subst spanLoop_step) (simp add: exec_0_match [OF assms] markedNode_def)
  also have "\<dots> = markedNode gs # spanLoop s (length (concat gs)) []"
    by (subst spanLoop_acc) simp
  also have "spanLoop s (length (concat gs)) [] = spanLoop (drop (length (concat gs)) s) 0 []"
    by (rule spanLoop_suffix) (subst s, simp)
  also have "drop (length (concat gs)) s = rest"
    by (subst s) simp
  finally show ?thesis by (simp add: commentSpans_def)
qed

lemma commentSpans_Nil: "commentSpans [] = []"
  by (simp add: commentSpans_def spanLoop_step [of "[]"] exec_def commentSpanRegex_def lit_def)

lemma commentSpans_skip:
  assumes "bt commentSpanRegex (c # s) = None"
  shows "commentSpans (c # s) = prependChar c (commentSpans s)"
proof (cases "exec s 0")
  case None
  with exec_0_Cons [OF assms] have "exec (c # s) 0 = None" by simp
  with None show ?thesis
    by (cases s) (simp_all add: commentSpans_def spanLoop_step [of _ 0])
next
  case (Some r)
  obtain index m e where r: "r = (index, m, e)" by (cases r)
  from exec_0_Cons [OF assms] Some r
  have ex: "exec (c # s) 0 = Some (Suc index, m, Suc e)" by simp
  from exec_bounds [OF Some [unfolded r]] have b: "index < e" "e \<le> length s" by auto
  define mk where "mk = TextNode (m ! 1) (Some [CommentMark (m ! 3)])"
  define tl where "tl = spanLoop (drop e s) 0 []"
  have "spanLoop (c # s) 0 [] = spanLoop (c # s) (Suc e) [TextNode (c # take index s) None, mk]"
    using b by (subst spanLoop_step) (simp add: ex mk_def substring_take_drop)
  also have "\<dots> = [TextNode (c # take index s) None, mk] @ spanLoop (c # s) (Suc e) []"
    by (rule spanLoop_acc)
  also have "spanLoop (c # s) (Suc e) [] = tl"
    using b by (subst spanLoop_suffix) (simp_all add: tl_def)
  finally have l: "commentSpans (c # s) = TextNode (c # take index s) None # mk # tl"
    by (simp add: commentSpans_def)
  have "spanLoop s 0 [] =
          spanLoop s e ((if 0 < index then [TextNode (take index s) None] else []) @ [mk])"
    using b by (subst spanLoop_step) (simp add: Some r mk_def substring_take_drop)
  also have "\<dots> = ((if 0 < index then [TextNode (take index s) None] else []) @ [mk])
                      @ spanLoop s e []"
    by (rule spanLoop_acc)
  also have "spanLoop s e [] = tl"
    using b by (subst spanLoop_suffix) (simp_all add: tl_def)
  finally have r: "commentSpans s =
      (if 0 < index then [TextNode (take index s) None] else []) @ mk # tl"
    by (simp add: commentSpans_def)
  show ?thesis
    by (simp add: l r mk_def)
qed

text \<open>The pass, as a recursion over the text.\<close>

lemma commentSpans_rec:
  "commentSpans s =
     (case bt commentSpanRegex s of
        Some (gs, rest) \<Rightarrow> markedNode gs # commentSpans rest
      | None \<Rightarrow> (case s of [] \<Rightarrow> [] | c # s' \<Rightarrow> prependChar c (commentSpans s')))"
  by (auto split: option.splits list.splits
       simp: commentSpans_match commentSpans_skip commentSpans_Nil)

lemma bt_rest_shorter:
  assumes "bt commentSpanRegex s = Some (gs, rest)"
  shows "length rest < length s"
proof -
  obtain p r where "commentSpanRegex = One p # r"
    by (simp add: commentSpanRegex_def lit_def)
  with assms have "concat gs \<noteq> []" using bt_One_nonempty by metis
  moreover from bt_consumed [OF assms] have "length s = length (concat gs) + length rest"
    by (metis length_append)
  ultimately show ?thesis by simp
qed

lemma scan_induct [case_names Nil match skip]:
  assumes "P []"
    and "\<And>s gs rest. bt commentSpanRegex s = Some (gs, rest) \<Longrightarrow> P rest \<Longrightarrow> P s"
    and "\<And>c s. bt commentSpanRegex (c # s) = None \<Longrightarrow> P s \<Longrightarrow> P (c # s)"
  shows "P s"
proof (induction s rule: length_induct)
  case (1 s)
  show ?case
  proof (cases "bt commentSpanRegex s")
    case (Some r)
    obtain gs rest where r: "r = (gs, rest)" by (cases r)
    from bt_rest_shorter [OF Some [unfolded r]] 1 have "P rest" by blast
    with Some r assms(2) show ?thesis by blast
  next
    case None
    show ?thesis
    proof (cases s)
      case Nil
      with assms(1) show ?thesis by simp
    next
      case (Cons c s')
      with 1 have "P s'" by simp
      with None Cons assms(3) show ?thesis by blast
    qed
  qed
qed

lemma pm_text_prependChar:
  "concat (map pm_text (prependChar c xs)) = c # concat (map pm_text xs)"
  by (induction c xs rule: prependChar.induct) auto

text \<open>
  The markers of the white-space form are what the pattern matches with a dot in front of
  \<open>comment\<close>.
\<close>

lemma runWithout_I:
  "t \<noteq> [] \<Longrightarrow> x \<notin> set t \<Longrightarrow> runWithout x (t @ x # r) = Some (t, x # r)"
proof -
  assume a: "t \<noteq> []" "x \<notin> set t"
  then have "\<forall>c\<in>set t. c \<noteq> x" by blast
  then have "takeWhile (\<lambda>c. c \<noteq> x) (t @ x # r) = t" "dropWhile (\<lambda>c. c \<noteq> x) (t @ x # r) = x # r"
    by simp_all
  with a show ?thesis by (simp add: runWithout_def)
qed

lemma gap_I:
  "ws \<noteq> [] \<Longrightarrow> list_all isWhiteSpace ws \<Longrightarrow> \<not> isWhiteSpace c \<Longrightarrow>
     gap False (ws @ c # r) = Some (c # r)"
proof -
  assume a: "ws \<noteq> []" "list_all isWhiteSpace ws" "\<not> isWhiteSpace c"
  then have "\<forall>x\<in>set ws. isWhiteSpace x" by (simp add: list_all_iff)
  with a(3) have "takeWhile isWhiteSpace (ws @ c # r) = ws"
    "dropWhile isWhiteSpace (ws @ c # r) = c # r"
    by simp_all
  with a show ?thesis by (simp add: gap_def)
qed

lemma markerAt_I:
  assumes "markerParts t (of_char CHR ''.'') ws i"
  shows "markerAt False (markerText t (of_char CHR ''.'') ws i @ rest) = Some (t, i, rest)"
proof -
  from assms have p: "t \<noteq> []" "of_char CHR '']'' \<notin> set t" "ws \<noteq> []" "list_all isWhiteSpace ws"
    "i \<noteq> []" "of_char CHR ''\"'' \<notin> set i"
    by (simp_all add: markerParts_def)
  have r: "\<not> isWhiteSpace (of_char CHR ''r'')"
    by (simp add: isWhiteSpace_def isLineTerminator_def)
  have 1: "literal (js ''['') (markerText t (of_char CHR ''.'') ws i @ rest)
             = Some (t @ of_char CHR '']'' # js ''{.comment'' @ ws @ of_char CHR ''r'' # js ''ef=\"'' @ i @ of_char CHR ''\"'' # js ''}'' @ rest)"
    by (simp add: literal_iff markerText_def js_def)
  have 3: "literal (js '']{.comment'') (of_char CHR '']'' # js ''{.comment'' @ ws @ of_char CHR ''r'' # js ''ef=\"'' @ i @ of_char CHR ''\"'' # js ''}'' @ rest)
             = Some (ws @ of_char CHR ''r'' # js ''ef=\"'' @ i @ of_char CHR ''\"'' # js ''}'' @ rest)"
    by (simp add: literal_iff js_def)
  have 5: "literal (js ''ref=\"'') (of_char CHR ''r'' # js ''ef=\"'' @ i @ of_char CHR ''\"'' # js ''}'' @ rest)
             = Some (i @ of_char CHR ''\"'' # js ''}'' @ rest)"
    by (simp add: literal_iff js_def)
  have 7: "literal (js ''\"}'') (of_char CHR ''\"'' # js ''}'' @ rest) = Some rest"
    by (simp add: literal_iff js_def)
  show ?thesis
    unfolding markerAt_def 1 option.case runWithout_I [OF p(1,2)] prod.case 3
      gap_I [OF p(3,4) r] 5 runWithout_I [OF p(5,6)] 7 ..
qed

lemma markerGroups_nth:
  "markerGroups t d ws i ! 1 = t" "markerGroups t d ws i ! 4 = [d]" "markerGroups t d ws i ! 18 = i"
  by (simp_all add: markerGroups_def js_def)

lemma otherThanDot_Nil: "\<not> otherThanDot []"
  by (simp add: otherThanDot_def markerText_def js_def)

lemma otherThanDot_Cons:
  "otherThanDot (c # s) \<longleftrightarrow>
     (case bt commentSpanRegex (c # s) of
        None \<Rightarrow> False
      | Some (gs, rest) \<Rightarrow> gs ! 4 \<noteq> [of_char CHR ''.''])
     \<or> otherThanDot s"
proof
  assume "otherThanDot (c # s)"
  then obtain t d ws i where m: "markerParts t d ws i" "d \<noteq> of_char CHR ''.''"
    "sublist (markerText t d ws i) (c # s)"
    by (auto simp: otherThanDot_def)
  from m(3) have "prefix (markerText t d ws i) (c # s) \<or> sublist (markerText t d ws i) s"
    by (simp add: sublist_Cons_right)
  then show "(case bt commentSpanRegex (c # s) of
        None \<Rightarrow> False
      | Some (gs, rest) \<Rightarrow> gs ! 4 \<noteq> [of_char CHR ''.''])
     \<or> otherThanDot s"
  proof
    assume "prefix (markerText t d ws i) (c # s)"
    then obtain rest where "c # s = markerText t d ws i @ rest" by (auto simp: prefix_def)
    with bt_marker [OF m(1), of rest] m(2) show ?thesis
      by (simp add: markerGroups_nth)
  next
    assume "sublist (markerText t d ws i) s"
    with m(1,2) show ?thesis by (auto simp: otherThanDot_def)
  qed
next
  assume a: "(case bt commentSpanRegex (c # s) of
        None \<Rightarrow> False
      | Some (gs, rest) \<Rightarrow> gs ! 4 \<noteq> [of_char CHR ''.''])
     \<or> otherThanDot s"
  then show "otherThanDot (c # s)"
  proof
    assume "case bt commentSpanRegex (c # s) of
        None \<Rightarrow> False
      | Some (gs, rest) \<Rightarrow> gs ! 4 \<noteq> [of_char CHR ''.'']"
    then obtain gs rest where b: "bt commentSpanRegex (c # s) = Some (gs, rest)"
      and g: "gs ! 4 \<noteq> [of_char CHR ''.'']"
      by (auto split: option.splits)
    from bt_commentSpanRegex_D [OF b] obtain t d ws i where
      m: "markerParts t d ws i" "c # s = markerText t d ws i @ rest" "gs = markerGroups t d ws i"
      by blast
    from g m(3) have "d \<noteq> of_char CHR ''.''" by (simp add: markerGroups_nth)
    moreover from m(2) have "sublist (markerText t d ws i) (c # s)"
      by (metis sublist_appendI append_Nil)
    ultimately show ?thesis using m(1) by (auto simp: otherThanDot_def)
  next
    assume "otherThanDot s"
    then show ?thesis
      by (auto simp: otherThanDot_def sublist_Cons_right)
  qed
qed

lemma otherThanDot_rest:
  assumes "bt commentSpanRegex s = Some (gs, rest)" and "otherThanDot rest"
  shows "otherThanDot s"
proof -
  from bt_consumed [OF assms(1)] have "s = concat gs @ rest" by simp
  then have "sublist rest s" by (metis sublist_appendI append_Nil2)
  with assms(2) show ?thesis
    unfolding otherThanDot_def by (meson sublist_order.order.trans)
qed

lemma bt_markerAt:
  assumes "bt commentSpanRegex s = Some (gs, rest)" and "\<not> otherThanDot s"
  shows "markerAt False s = Some (gs ! 1, gs ! 18, rest)"
proof -
  from bt_commentSpanRegex_D [OF assms(1)] obtain t d ws i where
    m: "markerParts t d ws i" "s = markerText t d ws i @ rest" "gs = markerGroups t d ws i"
    by blast
  from m(2) have "sublist (markerText t d ws i) s" by (metis sublist_appendI append_Nil)
  with assms(2) m(1) have "d = of_char CHR ''.''" by (auto simp: otherThanDot_def)
  moreover from m(3) have "gs ! 1 = t" "gs ! 18 = i" by (simp_all only: markerGroups_nth)
  ultimately show ?thesis using m(1,2) markerAt_I [of t ws i rest] by simp
qed

lemma markerAt_None:
  assumes "bt commentSpanRegex s = None"
  shows "markerAt False s = None"
proof (rule ccontr)
  assume "markerAt False s \<noteq> None"
  then obtain t i rest where "markerAt False s = Some (t, i, rest)" by auto
  from markerAt_D [OF this] obtain ws where
    "markerParts t (of_char CHR ''.'') ws i" "s = markerText t (of_char CHR ''.'') ws i @ rest"
    by blast
  with bt_marker [of t "of_char CHR ''.''" ws i rest] assms show False by simp
qed

lemma commentSpans_texts:
  "\<not> otherThanDot s \<Longrightarrow> concat (map pm_text (commentSpans s)) = replaceMarkers False s"
proof (induction s rule: scan_induct)
  case Nil
  show ?case
    by (simp add: commentSpans_Nil replaceMarkers.simps [of False "[]"] markerAt_def literal_def js_def)
next
  case (match s gs rest)
  from match(3) otherThanDot_rest [OF match(1)] have "\<not> otherThanDot rest" by blast
  with match(2) bt_markerAt [OF match(1,3)] show ?case
    by (simp add: commentSpans_match [OF match(1)] replaceMarkers.simps [of False s] markedNode_def)
next
  case (skip c s)
  from skip(3) have "\<not> otherThanDot s" by (simp add: otherThanDot_Cons)
  with skip(2) markerAt_None [OF skip(1)] show ?case
    by (simp add: commentSpans_skip [OF skip(1)] replaceMarkers.simps [of False "c # s"] pm_text_prependChar)
qed

lemma prependChar_nonempty:
  "\<forall>n\<in>set xs. pm_text n \<noteq> [] \<Longrightarrow> \<forall>n\<in>set (prependChar c xs). pm_text n \<noteq> []"
  by (induction c xs rule: prependChar.induct) auto

lemma markedNode_nonempty:
  assumes "bt commentSpanRegex s = Some (gs, rest)"
  shows "pm_text (markedNode gs) \<noteq> []"
proof -
  from bt_commentSpanRegex_D [OF assms] obtain t d ws i where
    "markerParts t d ws i" "gs = markerGroups t d ws i" by blast
  then show ?thesis by (simp add: markedNode_markerGroups markerParts_def)
qed

lemma commentSpans_nonempty:
  "\<forall>n\<in>set (commentSpans s). pm_text n \<noteq> []"
proof (induction s rule: scan_induct)
  case Nil
  show ?case by (simp add: commentSpans_Nil)
next
  case (match s gs rest)
  then show ?case
    by (simp add: commentSpans_match markedNode_nonempty)
next
  case (skip c s)
  then show ?case
    by (simp add: commentSpans_skip prependChar_nonempty)
qed

lemma not_matchesAt:
  "(\<not> matchesAt s k) = (bt commentSpanRegex (drop k s) = None)"
  unfolding matchesAt_def by blast

lemma commentSpans_no_match:
  "(\<forall>k<length s. \<not> matchesAt s k) \<Longrightarrow>
     commentSpans s = (if s = [] then [] else [TextNode s None])"
proof (induction s)
  case Nil
  show ?case by (simp add: commentSpans_Nil)
next
  case (Cons c s)
  from Cons.prems have "\<not> matchesAt (c # s) 0" by blast
  then have "bt commentSpanRegex (c # s) = None"
    by (simp add: not_matchesAt)
  moreover have "\<forall>k<length s. \<not> matchesAt s k"
  proof (intro allI impI)
    fix k assume "k < length s"
    with Cons.prems have "\<not> matchesAt (c # s) (Suc k)" by simp
    then show "\<not> matchesAt s k" by (simp add: not_matchesAt)
  qed
  ultimately show ?case
    using Cons.IH by (simp add: commentSpans_skip)
qed

lemma commentSpans_first_match:
  assumes "markerParts t d ws i"
    and "\<forall>k<length pre. \<not> matchesAt (pre @ markerText t d ws i @ post) k"
  shows "commentSpans (pre @ markerText t d ws i @ post) =
           (if pre = [] then [] else [TextNode pre None])
           @ TextNode t (Some [CommentMark i]) # commentSpans post"
  using assms(2)
proof (induction pre)
  case Nil
  show ?case
    using commentSpans_match [OF bt_marker [OF assms(1)], of post]
    by (simp add: markedNode_markerGroups)
next
  case (Cons c pre)
  from Cons.prems have "\<not> matchesAt ((c # pre) @ markerText t d ws i @ post) 0" by simp
  then have "bt commentSpanRegex (c # pre @ markerText t d ws i @ post) = None"
    by (simp add: not_matchesAt)
  moreover have "\<forall>k<length pre. \<not> matchesAt (pre @ markerText t d ws i @ post) k"
  proof (intro allI impI)
    fix k assume "k < length pre"
    with Cons.prems have "\<not> matchesAt ((c # pre) @ markerText t d ws i @ post) (Suc k)" by simp
    then show "\<not> matchesAt (pre @ markerText t d ws i @ post) k"
      by (simp add: not_matchesAt)
  qed
  ultimately show ?case
    using Cons.IH by (simp add: commentSpans_skip)
qed

lemma marked_prependChar:
  "TextNode t (Some ms) \<in> set (prependChar c xs) \<longleftrightarrow> TextNode t (Some ms) \<in> set xs"
  by (induction c xs rule: prependChar.induct) auto

lemma commentSpans_marked:
  "TextNode t (Some ms) \<in> set (commentSpans s) \<Longrightarrow>
     \<exists>i d ws. ms = [CommentMark i] \<and> markerParts t d ws i \<and> sublist (markerText t d ws i) s"
proof (induction s rule: scan_induct)
  case Nil
  then show ?case by (simp add: commentSpans_Nil)
next
  case (match s gs rest)
  from bt_commentSpanRegex_D [OF match(1)] obtain t' d ws i where
    m: "markerParts t' d ws i" "s = markerText t' d ws i @ rest" "gs = markerGroups t' d ws i"
    by blast
  from match(3) have "TextNode t (Some ms) = markedNode gs \<or> TextNode t (Some ms) \<in> set (commentSpans rest)"
    by (simp add: commentSpans_match [OF match(1)])
  then show ?case
  proof
    assume "TextNode t (Some ms) = markedNode gs"
    with m have "t = t'" "ms = [CommentMark i]" by (simp_all add: markedNode_markerGroups)
    with m show ?thesis by (auto intro!: exI simp: sublist_def)
  next
    assume "TextNode t (Some ms) \<in> set (commentSpans rest)"
    from match(2) [OF this] obtain i' d' ws' where
      "ms = [CommentMark i']" "markerParts t d' ws' i'" "sublist (markerText t d' ws' i') rest"
      by blast
    then show ?thesis using m(2) by (metis sublist_appendI append_Nil2 sublist_order.order.trans sublist_append_rightI)
  qed
next
  case (skip c s)
  from skip(3) have "TextNode t (Some ms) \<in> set (commentSpans s)"
    by (simp add: commentSpans_skip [OF skip(1)] marked_prependChar)
  from skip(2) [OF this] obtain i d ws where
    "ms = [CommentMark i]" "markerParts t d ws i" "sublist (markerText t d ws i) s"
    by blast
  moreover from this(3) have "sublist (markerText t d ws i) (c # s)"
    by (metis sublist_Cons_right)
  ultimately show ?case by blast
qed

lemmas eval_defs = commentSpanRegex_def lit_def js_def isWhiteSpace_def isLineTerminator_def
  exec_def substring_def


section \<open>Properties of the loop over the blocks\<close>

lemma convertLoop_append:
  "convertLoop render st (xs @ ys) =
     (case convertLoop render st xs of Inl e \<Rightarrow> Inl e | Inr st' \<Rightarrow> convertLoop render st' ys)"
  by (induction xs arbitrary: st) (auto split: sum.splits)

lemma visit_unhandled: "\<not> handled b \<Longrightarrow> visit render st b = Inr st"
  by (cases "(render, st, b)" rule: visit.cases) (auto split: option.splits)

lemma convertLoop_drop:
  "\<not> handled b \<Longrightarrow> convertLoop render st (xs @ b # ys) = convertLoop render st (xs @ ys)"
  by (simp add: convertLoop_append visit_unhandled split: sum.splits)

lemma convertLoop_filter:
  "convertLoop render st (filter handled bs) = convertLoop render st bs"
  by (induction bs arbitrary: st) (auto simp: visit_unhandled split: sum.splits)

lemma visit_nodes:
  "visit render st b = Inr st' \<Longrightarrow>
     proseMirrorNodes st' = proseMirrorNodes st @ blockNodes render b"
  by (cases "(render, st, b)" rule: visit.cases)
     (auto simp: blockNodes_def push_def split: if_splits sum.splits)

lemma convertLoop_nodes:
  "convertLoop render st bs = Inr st' \<Longrightarrow>
     proseMirrorNodes st' = proseMirrorNodes st @ concat (map (blockNodes render) bs)"
proof (induction bs arbitrary: st)
  case Nil
  then show ?case by simp
next
  case (Cons b bs)
  from Cons.prems obtain st1 where v: "visit render st b = Inr st1"
    and l: "convertLoop render st1 bs = Inr st'"
    by (auto split: sum.splits)
  from Cons.IH [OF l] visit_nodes [OF v] show ?case by simp
qed

lemma visit_renders:
  "renders render b \<Longrightarrow> \<exists>st'. visit render st b = Inr st'"
  by (cases "(render, st, b)" rule: visit.cases) (auto split: sum.splits)

lemma convertLoop_renders:
  "list_all (renders render) bs \<Longrightarrow> \<exists>st'. convertLoop render st bs = Inr st'"
proof (induction bs arbitrary: st)
  case Nil
  then show ?case by simp
next
  case (Cons b bs)
  then obtain st1 where "visit render st b = Inr st1"
    using visit_renders [of render b st] by auto
  with Cons show ?case by simp
qed

lemma convertLoop_rejects:
  "render code chunkOptions = Inl e \<Longrightarrow> chunkOptions \<noteq> [] \<Longrightarrow>
     convertLoop render st (Code (Some chunkOptions) code # rest) = Inl e"
  by simp

lemma qmdToProseMirror_content:
  assumes "extractCommentsAppendix env qmdString = (cs, rest)"
    and "matter env rest = Inr (y, md)"
    and "list_all (renders (renderChunk env)) (remarkParse env md)"
  shows "qmdToProseMirror env qmdString =
           Inr \<lparr>prosemirrorJson =
                  \<lparr>content = concat (map (blockNodes (renderChunk env)) (remarkParse env md)),
                   yaml = y\<rparr>,
                comments = cs\<rparr>"
proof -
  from convertLoop_renders [OF assms(3)] obtain st where
    st: "convertLoop (renderChunk env) \<lparr>proseMirrorNodes = [], renderCalls = []\<rparr>
           (remarkParse env md) = Inr st"
    by blast
  from convertLoop_nodes [OF st] show ?thesis
    using assms(1,2) st by (simp add: qmdToProseMirror_def)
qed

lemma no_match_without_bracket:
  assumes "of_char CHR ''['' \<notin> set pre"
  shows "\<forall>k<length pre. \<not> matchesAt (pre @ x) k"
proof (intro allI impI)
  fix k assume k: "k < length pre"
  then obtain c r where d: "drop k pre = c # r"
    by (cases "drop k pre") auto
  then have "c \<in> set pre" by (metis in_set_dropD list.set_intros(1))
  with assms have "c \<noteq> of_char CHR ''[''" by blast
  then have "bt commentSpanRegex (c # r @ x) = None"
    by (simp add: commentSpanRegex_def lit_def)
  with d k show "\<not> matchesAt (pre @ x) k"
    by (simp add: not_matchesAt)
qed


lemma headingText_literals:
  "headingText cs = concat (map plainText (filter (\<lambda>c. ivalue c \<noteq> None) cs))"
proof (induction cs)
  case Nil
  show ?case by (simp add: headingText_def)
next
  case (Cons c cs)
  then show ?case by (cases c) (simp_all add: headingText_def)
qed

lemma spanLoop_scenario:
  "spanLoop (js ''Hello [world]{.comment ref=\"c1\"}'') 0 [] =
     [TextNode (js ''Hello '') None, TextNode (js ''world'') (Some [CommentMark (js ''c1'')])]"
  by (simp add: spanLoop.simps eval_defs)

lemma example_collaborators:
  "extractCommentsAppendix exampleEnv exampleSource = ([], exampleSource)"
  "matter exampleEnv exampleSource = Inr ([(js ''title'', js ''Demo'')], exampleBody)"
  "remarkParse exampleEnv exampleBody = exampleTree"
  "renderChunk exampleEnv = (\<lambda>code chunkOptions. Inr (ErrorPayload (JsError (js ''halted''))))"
  by (simp_all add: exampleEnv_def)

lemma renders_example: "renders (renderChunk exampleEnv) b"
  by (cases "(renderChunk exampleEnv, b)" rule: renders.cases)
     (simp_all add: example_collaborators(4))

lemma example_nodes:
  "concat (map (blockNodes (renderChunk exampleEnv)) exampleTree) =
     [HeadingNode 1 [TextNode (js ''T'') None],
      QuartoBlock (js ''stop()'') (js ''{r}'') (ErrorPayload (JsError (js ''halted''))),
      ParagraphNode [TextNode (js ''Hello '') None, TextNode [] None]]"
  by (simp add: example_collaborators exampleTree_def blockNodes_def push_def
        headingText_def js_def spanLoop.simps eval_defs)

lemma rejecting_collaborators:
  "extractCommentsAppendix rejectingEnv exampleSource = ([], exampleSource)"
  "matter rejectingEnv exampleSource = Inr ([(js ''title'', js ''Demo'')], exampleBody)"
  "remarkParse rejectingEnv exampleBody =
     [Heading 1 [Text (js ''T'')]]
     @ Code (Some (js ''{r}'')) (js ''stop()'')
     # [Unhandled ListBlock, Code None (js ''plain''),
        Paragraph [Text (js ''Hello ''), Strong [Text (js ''you'')]]]"
  "renderChunk rejectingEnv (js ''stop()'') (js ''{r}'') = Inl (JsError (js ''halted''))"
  by (simp_all add: rejectingEnv_def exampleEnv_def exampleTree_def)

section \<open>Properties of the paths\<close>

lemma splitSegments_no_slash:
  "slash \<notin> set a \<Longrightarrow> splitSegments cur a = [cur @ a]"
  by (induction a arbitrary: cur) auto

lemma splitSegments_slash:
  "splitSegments cur (a @ slash # b) = splitSegments cur a @ splitSegments [] b"
  by (induction a arbitrary: cur) auto

lemma splitSegments_slash_free:
  "slash \<notin> set cur \<Longrightarrow>
     list_all (\<lambda>seg. slash \<notin> set seg) (splitSegments cur a)"
  by (induction a arbitrary: cur) auto

lemma splitSegments_join:
  "segs \<noteq> [] \<Longrightarrow> list_all (\<lambda>seg. slash \<notin> set seg) segs \<Longrightarrow>
     splitSegments [] (joinSegments segs) = segs"
proof (induction segs rule: joinSegments.induct)
  case 1
  then show ?case by simp
next
  case (2 seg)
  then show ?case by (simp add: splitSegments_no_slash)
next
  case (3 seg v va)
  have "splitSegments [] (seg @ slash # joinSegments (v # va))
          = splitSegments [] seg @ splitSegments [] (joinSegments (v # va))"
    by (rule splitSegments_slash)
  with 3 show ?case
    by (simp add: splitSegments_no_slash)
qed

lemma joinSegments_append:
  "xs \<noteq> [] \<Longrightarrow> ys \<noteq> [] \<Longrightarrow>
     joinSegments (xs @ ys) = joinSegments xs @ slash # joinSegments ys"
proof (induction xs rule: joinSegments.induct)
  case 1
  then show ?case by simp
next
  case (2 seg)
  then show ?case by (cases ys) simp_all
next
  case (3 seg v va)
  then show ?case by simp
qed

lemma joinSegments_nonempty:
  "segs \<noteq> [] \<Longrightarrow> list_all cleanSegment segs \<Longrightarrow> joinSegments segs \<noteq> []"
  by (induction segs rule: joinSegments.induct) (auto simp: cleanSegment_def)

lemma joinSegments_last:
  "segs \<noteq> [] \<Longrightarrow> list_all cleanSegment segs \<Longrightarrow>
     last (joinSegments segs) \<noteq> slash"
proof (induction segs rule: joinSegments.induct)
  case 1
  then show ?case by simp
next
  case (2 seg)
  then show ?case by (auto simp: cleanSegment_def) (metis last_in_set)
next
  case (3 seg v va)
  then have "joinSegments (v # va) \<noteq> []" by (simp add: joinSegments_nonempty)
  with 3 show ?case by simp
qed

lemma resolveSegments_append:
  "resolveSegments a res (xs @ ys) = resolveSegments a (resolveSegments a res xs) ys"
  by (induction xs arbitrary: res) auto

lemma resolveSegments_clean:
  "list_all cleanSegment xs \<Longrightarrow> resolveSegments a res xs = res @ xs"
  by (induction xs arbitrary: res) (auto simp: cleanSegment_def)

lemma list_all_butlast: "list_all P xs \<Longrightarrow> list_all P (butlast xs)"
  by (induction xs) auto

lemma resolveSegments_absolute_clean:
  "list_all cleanSegment res \<Longrightarrow> list_all (\<lambda>seg. slash \<notin> set seg) xs \<Longrightarrow>
     list_all cleanSegment (resolveSegments False res xs)"
proof (induction xs arbitrary: res)
  case Nil
  then show ?case by simp
next
  case (Cons x xs)
  then show ?case
    by (auto simp: cleanSegment_def list_all_butlast intro!: Cons.IH)
qed

text \<open>An absolute path of clean segments is left as it is.\<close>

lemma path_normalize_clean:
  assumes "segs \<noteq> []" "list_all cleanSegment segs"
  shows "path_normalize (slash # joinSegments segs) = slash # joinSegments segs"
proof -
  have sf: "list_all (\<lambda>seg. slash \<notin> set seg) segs"
    using assms(2) by (simp add: list_all_iff cleanSegment_def)
  have "splitSegments [] (slash # joinSegments segs) = [] # segs"
    using splitSegments_join [OF assms(1) sf] by simp
  then have "normalizeString (slash # joinSegments segs) False = joinSegments segs"
    using assms(2) by (simp add: normalizeString_def resolveSegments_clean)
  moreover have "joinSegments segs \<noteq> []"
    using assms by (rule joinSegments_nonempty)
  moreover have "last (joinSegments segs) \<noteq> slash"
    using assms by (rule joinSegments_last)
  ultimately show ?thesis
    by (simp add: path_normalize_def Let_def js_def slash_def)
qed

lemma path_join_clean:
  assumes "root \<noteq> []" "list_all cleanSegment root" "segs \<noteq> []" "list_all cleanSegment segs"
  shows "path_join ((slash # joinSegments root) # segs) =
           (slash # joinSegments root) @ slash # joinSegments segs"
    and "path_join ((slash # joinSegments root) # segs) =
           slash # joinSegments (root @ segs)"
proof -
  have ne: "filter (\<lambda>arg. arg \<noteq> []) segs = segs"
    using assms(4) by (simp add: list_all_iff cleanSegment_def)
  have j: "joinSegments ((slash # joinSegments root) # segs) =
        slash # joinSegments (root @ segs)"
    using assms(1,3) by (cases segs) (simp_all add: joinSegments_append)
  have "path_join ((slash # joinSegments root) # segs) =
          path_normalize (joinSegments ((slash # joinSegments root) # segs))"
    by (simp add: path_join_def ne del: joinSegments.simps)
  also have "\<dots> = path_normalize (slash # joinSegments (root @ segs))"
    by (simp only: j)
  also have "\<dots> = slash # joinSegments (root @ segs)"
    using assms by (intro path_normalize_clean) simp_all
  finally show "path_join ((slash # joinSegments root) # segs) =
           slash # joinSegments (root @ segs)" .
  then show "path_join ((slash # joinSegments root) # segs) =
           (slash # joinSegments root) @ slash # joinSegments segs"
    using assms(1,3) by (simp add: joinSegments_append)
qed

lemma CACHE_DIR_clean:
  assumes "dirname rt \<noteq> []" "hd (dirname rt) = slash"
  shows "\<exists>root. root \<noteq> [] \<and> list_all cleanSegment root
           \<and> CACHE_DIR rt = slash # joinSegments root"
proof -
  let ?d = "dirname rt"
  define R where "R = resolveSegments False [] (splitSegments [] ?d @ [js ''..''])"
  have "splitSegments [] (js ''../cache'') = [js ''..'', js ''cache'']"
    by (simp add: js_def slash_def)
  then have sp: "splitSegments [] (?d @ slash # js ''../cache'')
            = splitSegments [] ?d @ [js ''..'', js ''cache'']"
    by (simp add: splitSegments_slash)
  have "list_all (\<lambda>seg. slash \<notin> set seg) (splitSegments [] ?d @ [js ''..''])"
    using splitSegments_slash_free [of "[]" ?d] by (simp add: js_def slash_def)
  then have R: "list_all cleanSegment R"
    unfolding R_def by (intro resolveSegments_absolute_clean) simp_all
  have cc: "cleanSegment (js ''cache'')"
    by (simp add: cleanSegment_def js_def slash_def)
  have "resolveSegments False [] ((splitSegments [] ?d @ [js ''..'']) @ [js ''cache''])
           = resolveSegments False R [js ''cache'']"
    unfolding R_def by (rule resolveSegments_append)
  also have "\<dots> = R @ [js ''cache'']"
    using cc by (intro resolveSegments_clean) simp
  finally have res: "resolveSegments False [] (splitSegments [] ?d @ [js ''..'', js ''cache''])
           = R @ [js ''cache'']"
    by simp
  have cl: "list_all cleanSegment (R @ [js ''cache''])"
    using R cc by simp
  have jn: "joinSegments (R @ [js ''cache'']) \<noteq> []"
    using cl by (intro joinSegments_nonempty) simp_all
  have c0: "js ''../cache'' \<noteq> []" "last (js ''../cache'') \<noteq> slash"
    by (simp_all add: js_def slash_def)
  have "CACHE_DIR rt = path_normalize (?d @ slash # js ''../cache'')"
    using assms(1) c0 by (simp add: CACHE_DIR_def path_join_def)
  also have "\<dots> = js ''/'' @ joinSegments (R @ [js ''cache''])"
    using assms jn c0
    by (simp add: path_normalize_def normalizeString_def sp res Let_def)
  also have "js ''/'' = [slash]" by (simp add: js_def slash_def)
  finally have "CACHE_DIR rt = slash # joinSegments (R @ [js ''cache''])" by simp
  with cl show ?thesis by (intro exI [of _ "R @ [js ''cache'']"]) simp
qed

lemma cleanSegment_long:
  "slash \<notin> set seg \<Longrightarrow> length seg > 2 \<Longrightarrow> cleanSegment seg"
  by (auto simp: cleanSegment_def js_def)

lemma digestHex_length: "length (digestHex w) = 32"
  by (simp add: digestHex_def)

lemma digestHex_digits: "set (digestHex w) \<subseteq> set (js ''0123456789abcdef'')"
proof -
  have "unat (drop_bit (4 * k) w) mod 16 < length (js ''0123456789abcdef'')" for k
    by (simp add: js_def)
  then show ?thesis
    unfolding digestHex_def by (auto simp del: length_map intro!: nth_mem)
qed

lemma digestHex_no_slash: "slash \<notin> set (digestHex w)"
proof -
  have "slash \<notin> set (js ''0123456789abcdef'')"
    by (simp add: js_def slash_def)
  with digestHex_digits show ?thesis by blast
qed

lemma path_parse_name_no_slash: "slash \<notin> set (path_parse_name path)"
proof -
  have "slash \<notin> set (rev (takeWhile (\<lambda>c. c \<noteq> slash) xs))" for xs
    by (auto dest: set_takeWhileD)
  then show ?thesis
    unfolding path_parse_name_def Let_def
    by (auto dest: in_set_takeD)
qed

lemma example_roots:
  "CACHE_DIR exampleRuntime = js ''/srv/backend/cache''"
  "CACHE_DIR_RENDERED_DOCS exampleRuntime = js ''/srv/backend/cache/rendered_docs''"
  by (simp_all add: CACHE_DIR_RENDERED_DOCS_def CACHE_DIR_def exampleRuntime_def path_join_def
        path_normalize_def normalizeString_def js_def slash_def)

lemma cache_roots:
  assumes "dirname rt \<noteq> []" "hd (dirname rt) = slash"
  obtains root where "root \<noteq> []" "list_all cleanSegment root"
    "CACHE_DIR rt = slash # joinSegments root"
    "CACHE_DIR_RENDERED_DOCS rt = slash # joinSegments (root @ [js ''rendered_docs''])"
    "CACHE_DIR_RENDERED_DOCS rt = CACHE_DIR rt @ js ''/rendered_docs''"
proof -
  from CACHE_DIR_clean [OF assms] obtain root where r: "root \<noteq> []" "list_all cleanSegment root"
    "CACHE_DIR rt = slash # joinSegments root" by blast
  have c: "list_all cleanSegment [js ''rendered_docs'']"
    by (simp add: cleanSegment_def js_def slash_def)
  have "CACHE_DIR_RENDERED_DOCS rt = slash # joinSegments (root @ [js ''rendered_docs''])"
    unfolding CACHE_DIR_RENDERED_DOCS_def r(3)
    using path_join_clean(2) [OF r(1,2) _ c] by simp
  moreover have "CACHE_DIR_RENDERED_DOCS rt = CACHE_DIR rt @ js ''/rendered_docs''"
    unfolding CACHE_DIR_RENDERED_DOCS_def r(3)
    using path_join_clean(1) [OF r(1,2) _ c] by (simp add: js_def slash_def)
  ultimately show ?thesis using r that by blast
qed

lemma calculateCacheFilename_layout:
  assumes "dirname rt \<noteq> []" "hd (dirname rt) = slash"
    and "slash \<notin> set repoId" "slash \<notin> set commitHash"
  shows "calculateCacheFilename rt md5 repoId docFilepath commitHash =
           CACHE_DIR_RENDERED_DOCS rt @ js ''/'' @ repoId @ js ''-'' @ digestHex (md5 docFilepath)
             @ js ''-'' @ commitHash @ js ''.json''"
proof -
  from cache_roots [OF assms(1,2)] obtain root where r: "root \<noteq> []" "list_all cleanSegment root"
    "CACHE_DIR_RENDERED_DOCS rt = slash # joinSegments (root @ [js ''rendered_docs''])"
    by metis
  let ?seg = "repoId @ js ''-'' @ digestHex (md5 docFilepath) @ js ''-'' @ commitHash @ js ''.json''"
  have "slash \<notin> set (js ''-'') \<and> slash \<notin> set (js ''.json'')"
    by (simp add: js_def slash_def)
  then have "cleanSegment ?seg"
    using assms(3,4) digestHex_no_slash [of "md5 docFilepath"]
    by (intro cleanSegment_long) (simp_all add: digestHex_length)
  then have c: "list_all cleanSegment [?seg]" by simp
  have r': "root @ [js ''rendered_docs''] \<noteq> []" "list_all cleanSegment (root @ [js ''rendered_docs''])"
    using r(2) by (simp_all add: cleanSegment_def js_def slash_def)
  show ?thesis
    unfolding calculateCacheFilename_def Let_def r(3)
    using path_join_clean(1) [OF r' _ c] by (simp add: js_def slash_def)
qed

lemma calculateAssetCacheDir_layout:
  assumes "dirname rt \<noteq> []" "hd (dirname rt) = slash"
    and "cleanSegment repoId" "cleanSegment commitHash"
  shows "calculateAssetCacheDir rt repoId docFilename commitHash =
           CACHE_DIR rt @ js ''/assets/'' @ repoId @ js ''/'' @ commitHash @ js ''/''
             @ path_parse_name docFilename @ js ''_files''"
proof -
  from cache_roots [OF assms(1,2)] obtain root where r: "root \<noteq> []" "list_all cleanSegment root"
    "CACHE_DIR rt = slash # joinSegments root"
    by metis
  let ?dir = "path_parse_name docFilename @ js ''_files''"
  have "slash \<notin> set (js ''_files'')" "length (js ''_files'') = 6"
    by (simp_all add: js_def slash_def)
  then have "cleanSegment ?dir"
    using path_parse_name_no_slash [of docFilename]
    by (intro cleanSegment_long) simp_all
  moreover have "cleanSegment (js ''assets'')"
    by (simp add: cleanSegment_def js_def slash_def)
  ultimately have c: "list_all cleanSegment [js ''assets'', repoId, commitHash, ?dir]"
    using assms(3,4) by simp
  show ?thesis
    unfolding calculateAssetCacheDir_def r(3)
    using path_join_clean(1) [OF r(1,2) _ c] by (simp add: js_def slash_def)
qed

section \<open>The claims about the span-detection pass\<close>

text \<open>
  The dot in front of \<open>comment\<close> is not escaped in the pattern, so any code unit but a
  line terminator stands for it.
\<close>

lemma unescaped_dot:
  "spanLoop (js ''[a]{xcomment ref=\"i\"}'') 0 [] = [TextNode (js ''a'') (Some [CommentMark (js ''i'')])]"
  by (simp add: spanLoop.simps eval_defs)

text \<open>
  The run \<^verbatim>\<open>[a]{.comment  ref="i"}\<close> has two spaces after \<open>.comment\<close>. The pass emits
  \<open>a\<close> with a comment mark, although the run contains no marker of the exact form for it:
  the \<open>\s+\<close> of the pattern accepts any run of white space.
\<close>

theorem C3_exact_form_counterexample:
  "TextNode (js ''a'') (Some [CommentMark (js ''i'')])
     \<in> set (spanLoop (js ''[a]{.comment  ref=\"i\"}'') 0 [])
   \<and> \<not> sublist (exactMarker (js ''a'') (js ''i'')) (js ''[a]{.comment  ref=\"i\"}'')"
  by (simp add: spanLoop.simps eval_defs exactMarker_def sublist_code prefix_code)

text \<open>
  C3 (amended). The pass scans a plain-text run from left to right. When the run is
  \<open>pre\<close>, then a marker \<^verbatim>\<open>[<text>]{.comment<ws>ref="<id>"}\<close>, then \<open>post\<close>, where
  \<open><text>\<close> is a non-empty run without \<open>]\<close>, \<open><ws>\<close> one or more white-space code units
  and \<open><id>\<close> a non-empty run without a double quote, and the pattern matches at no
  position of \<open>pre\<close>, the pass adds \<open>pre\<close> as one unmarked segment (when it is not empty),
  then \<open><text>\<close> with a comment mark carrying \<open><id>\<close>, then the segments of the rescan of
  \<open>post\<close>. A run in which the pattern matches nowhere is added as one unmarked segment
  (nothing when it is empty). Every marked segment that is emitted carries exactly one
  comment mark and is the inner text of a substring of the run of the shape
  \<open>[<text>]{\<close>, one code unit, \<open>comment<ws>ref="<id>"}\<close>.
\<close>

theorem C3_span_detection:
  "(markerParts t (of_char CHR ''.'') ws i
      \<and> (\<forall>k<length pre. \<not> matchesAt (pre @ markerText t (of_char CHR ''.'') ws i @ post) k)
     \<longrightarrow> spanLoop (pre @ markerText t (of_char CHR ''.'') ws i @ post) 0 paragraphContent =
           paragraphContent @ (if pre = [] then [] else [TextNode pre None])
             @ TextNode t (Some [CommentMark i]) # spanLoop post 0 [])
   \<and> ((\<forall>k<length s. \<not> matchesAt s k)
     \<longrightarrow> spanLoop s 0 paragraphContent =
           paragraphContent @ (if s = [] then [] else [TextNode s None]))
   \<and> (TextNode t' (Some ms) \<in> set (spanLoop s 0 [])
     \<longrightarrow> (\<exists>i' d ws'. ms = [CommentMark i'] \<and> markerParts t' d ws' i'
            \<and> sublist (markerText t' d ws' i') s))"
proof (intro conjI impI)
  assume "markerParts t (of_char CHR ''.'') ws i
      \<and> (\<forall>k<length pre. \<not> matchesAt (pre @ markerText t (of_char CHR ''.'') ws i @ post) k)"
  then have "commentSpans (pre @ markerText t (of_char CHR ''.'') ws i @ post) =
           (if pre = [] then [] else [TextNode pre None])
           @ TextNode t (Some [CommentMark i]) # commentSpans post"
    by (intro commentSpans_first_match) simp_all
  then show "spanLoop (pre @ markerText t (of_char CHR ''.'') ws i @ post) 0 paragraphContent =
           paragraphContent @ (if pre = [] then [] else [TextNode pre None])
             @ TextNode t (Some [CommentMark i]) # spanLoop post 0 []"
    by (subst spanLoop_acc) (simp add: commentSpans_def)
next
  assume "\<forall>k<length s. \<not> matchesAt s k"
  from commentSpans_no_match [OF this]
  show "spanLoop s 0 paragraphContent =
           paragraphContent @ (if s = [] then [] else [TextNode s None])"
    by (subst spanLoop_acc) (simp add: commentSpans_def)
next
  assume "TextNode t' (Some ms) \<in> set (spanLoop s 0 [])"
  then show "\<exists>i' d ws'. ms = [CommentMark i'] \<and> markerParts t' d ws' i'
            \<and> sublist (markerText t' d ws' i') s"
    using commentSpans_marked [of t' ms s] by (simp add: commentSpans_def)
qed

theorem C3_span_detection_witness:
  "spanLoop (js ''Hello [world]{.comment\<newline>  ref=\"c1\"} x'') 0 [] =
     [TextNode (js ''Hello '') None, TextNode (js ''world'') (Some [CommentMark (js ''c1'')]),
      TextNode (js '' x'') None]
   \<and> (\<exists>i' d ws'. markerParts (js ''world'') d ws' i'
         \<and> sublist (markerText (js ''world'') d ws' i')
               (js ''Hello [world]{.comment\<newline>  ref=\"c1\"} x''))"
proof -
  let ?dot = "of_char CHR ''.'' :: jschar"
  let ?m = "markerText (js ''world'') ?dot (js ''\<newline>  '') (js ''c1'')"
  have parts: "markerParts (js ''world'') ?dot (js ''\<newline>  '') (js ''c1'')"
    by (simp add: markerParts_def js_def isWhiteSpace_def isLineTerminator_def)
  have decomp: "js ''Hello [world]{.comment\<newline>  ref=\"c1\"} x'' = js ''Hello '' @ ?m @ js '' x''"
    by (simp add: markerText_def js_def)
  have first: "\<forall>k<length (js ''Hello ''). \<not> matchesAt (js ''Hello '' @ ?m @ js '' x'') k"
    by (rule no_match_without_bracket) (simp add: js_def)
  have none: "\<forall>k<length (js '' x''). \<not> matchesAt (js '' x'') k"
    using no_match_without_bracket [of "js '' x''" "[]"] by (simp add: js_def)
  have mem: "TextNode (js ''world'') (Some [CommentMark (js ''c1'')])
     \<in> set (spanLoop (js ''Hello [world]{.comment\<newline>  ref=\"c1\"} x'') 0 [])"
    by (simp add: spanLoop.simps eval_defs)
  note inst = C3_span_detection [of "js ''world''" "js ''\<newline>  ''" "js ''c1''" "js ''Hello ''"
       "js '' x''" "[]" "js '' x''" "js ''world''" "[CommentMark (js ''c1'')]"]
  note inst' = C3_span_detection [of _ _ _ _ _ _ "js ''Hello [world]{.comment\<newline>  ref=\"c1\"} x''"
       "js ''world''" "[CommentMark (js ''c1'')]"]
  have ne: "js ''Hello '' \<noteq> []" "js '' x'' \<noteq> []" by (simp_all add: js_def)
  from inst parts first have a: "spanLoop (js ''Hello '' @ ?m @ js '' x'') 0 [] =
      [TextNode (js ''Hello '') None, TextNode (js ''world'') (Some [CommentMark (js ''c1'')])]
       @ spanLoop (js '' x'') 0 []"
    by (simp add: ne)
  from inst none have b: "spanLoop (js '' x'') 0 [] = [TextNode (js '' x'') None]"
    by (simp add: ne)
  from inst' mem have c: "\<exists>i' d ws'. markerParts (js ''world'') d ws' i'
         \<and> sublist (markerText (js ''world'') d ws' i')
               (js ''Hello [world]{.comment\<newline>  ref=\"c1\"} x'')"
    by blast
  from a b c show ?thesis by (simp add: decomp)
qed

text \<open>
  The run \<^verbatim>\<open>[a]{.comment\<close>, a line break, \<^verbatim>\<open>ref="i"}\<close> contains no marker of the form
  \<^verbatim>\<open>[t]{.comment ref="id"}\<close>, not even the text \<^verbatim>\<open>.comment ref=\<close>, so that replacing each
  such marker by its inner text leaves the run as it is. The texts of the segments the
  pass emits make up \<open>a\<close>: the \<open>\s+\<close> of the pattern accepts the line break.
\<close>

theorem C10_exact_marker_counterexample:
  "concat (map pm_text (spanLoop (js ''[a]{.comment\<newline>ref=\"i\"}'') 0 [])) = js ''a''
   \<and> replaceMarkers True (js ''[a]{.comment\<newline>ref=\"i\"}'') = js ''[a]{.comment\<newline>ref=\"i\"}''
   \<and> \<not> sublist (js ''.comment ref='') (js ''[a]{.comment\<newline>ref=\"i\"}'')"
  by (simp add: spanLoop.simps eval_defs replaceMarkers.simps markerAt_def literal_def
        runWithout_def gap_def sublist_code prefix_code)

text \<open>
  C10 (amended). For every plain-text run, none of the segments the pass adds has an empty
  text. When the run contains no text that differs from a marker only by the code unit in
  the place of the dot, the texts of the added segments, concatenated, are the run with
  each marker \<^verbatim>\<open>[t]{.comment<ws>ref="id"}\<close> replaced by its inner text \<open>t\<close>, where \<open><ws>\<close> is
  one or more white-space code units (not exactly one space), the markers taken from left
  to right and every other code unit kept.
\<close>

theorem C10_marker_replacement:
  "\<exists>segs. spanLoop textValue 0 paragraphContent = paragraphContent @ segs
      \<and> (\<forall>n\<in>set segs. pm_text n \<noteq> [])
      \<and> (\<not> otherThanDot textValue
           \<longrightarrow> concat (map pm_text segs) = replaceMarkers False textValue)"
proof (intro exI conjI impI)
  show "spanLoop textValue 0 paragraphContent = paragraphContent @ commentSpans textValue"
    by (subst spanLoop_acc) (simp add: commentSpans_def)
  show "\<forall>n\<in>set (commentSpans textValue). pm_text n \<noteq> []"
    by (rule commentSpans_nonempty)
  assume "\<not> otherThanDot textValue"
  then show "concat (map pm_text (commentSpans textValue)) = replaceMarkers False textValue"
    by (rule commentSpans_texts)
qed

theorem C10_marker_replacement_witness:
  "\<exists>segs. spanLoop (js ''Hello [world]{.comment\<newline>  ref=\"c1\"} [x]{.comment ref=\"c2\"}!'') 0 [] = segs
      \<and> list_all (\<lambda>n. pm_text n \<noteq> []) segs
      \<and> concat (map pm_text segs) = js ''Hello world x!''"
proof -
  let ?run = "js ''Hello [world]{.comment\<newline>  ref=\"c1\"} [x]{.comment ref=\"c2\"}!''"
  have d: "\<not> otherThanDot ?run"
    by (simp add: otherThanDot_Cons otherThanDot_Nil eval_defs)
  have r: "replaceMarkers False ?run = js ''Hello world x!''"
    by (simp add: replaceMarkers.simps markerAt_def literal_def runWithout_def gap_def
          prefix_code js_def isWhiteSpace_def isLineTerminator_def)
  from C10_marker_replacement [of ?run "[]"] d
  show ?thesis by (simp add: r list_all_iff)
qed

section \<open>The claims about the tree\<close>

text \<open>
  The example document holds a heading, a chunk, a list, a code block without language
  tag and a paragraph. With a chunk renderer that rejects, the parse rejects with the
  error of the renderer: no tree comes back, the nodes of the other blocks neither. The
  call of the renderer is awaited outside any \<open>try\<close>.
\<close>

theorem C1_renderer_rejects_counterexample:
  "qmdToProseMirror rejectingEnv exampleSource = Inl (JsError (js ''halted''))"
  by (simp add: qmdToProseMirror_def rejectingEnv_def exampleEnv_def exampleTree_def push_def
        js_def)

text \<open>
  C1 (amended). The parser keeps what the chunk renderer returns and does not capture what
  it throws. When the front matter parses and the renderer returns for every chunk, the
  parse returns the tree that holds, in source order, the nodes of every block; the
  \<open>quartoBlock\<close> of a chunk carries as its output the value the renderer returned for it,
  unchanged, be it rendered HTML or a value that stands for a failure; a heading and a
  paragraph have their nodes whatever the renderer is. When the renderer rejects with \<open>e\<close>
  for a chunk, having returned for the chunks before it, the parse rejects with \<open>e\<close> and
  returns no tree.
\<close>

theorem C1_renderer_outcome:
  "(extractCommentsAppendix env qmdString = (cs, rest) \<and> matter env rest = Inr (y, md)
      \<and> list_all (renders (renderChunk env)) (remarkParse env md)
     \<longrightarrow> qmdToProseMirror env qmdString =
           Inr \<lparr>prosemirrorJson =
                  \<lparr>content = concat (map (blockNodes (renderChunk env)) (remarkParse env md)),
                   yaml = y\<rparr>,
                comments = cs\<rparr>)
   \<and> (chunkOptions \<noteq> [] \<and> render code chunkOptions = Inr out
     \<longrightarrow> blockNodes render (Code (Some chunkOptions) code) = [QuartoBlock code chunkOptions out])
   \<and> blockNodes render (Heading depth children)
       = [HeadingNode depth [TextNode (headingText children) None]]
   \<and> blockNodes render (Paragraph children) = [ParagraphNode (paragraphLoop children [])]
   \<and> (extractCommentsAppendix env qmdString = (cs, rest) \<and> matter env rest = Inr (y, md)
      \<and> remarkParse env md = xs @ Code (Some chunkOptions) code # ys
      \<and> list_all (renders (renderChunk env)) xs
      \<and> chunkOptions \<noteq> [] \<and> renderChunk env code chunkOptions = Inl e
     \<longrightarrow> qmdToProseMirror env qmdString = Inl e)"
proof (intro conjI impI)
  assume "extractCommentsAppendix env qmdString = (cs, rest) \<and> matter env rest = Inr (y, md)
      \<and> list_all (renders (renderChunk env)) (remarkParse env md)"
  then show "qmdToProseMirror env qmdString =
           Inr \<lparr>prosemirrorJson =
                  \<lparr>content = concat (map (blockNodes (renderChunk env)) (remarkParse env md)),
                   yaml = y\<rparr>,
                comments = cs\<rparr>"
    using qmdToProseMirror_content [of env qmdString cs rest y md] by simp
next
  assume "chunkOptions \<noteq> [] \<and> render code chunkOptions = Inr out"
  then show "blockNodes render (Code (Some chunkOptions) code) = [QuartoBlock code chunkOptions out]"
    by (simp add: blockNodes_def push_def)
next
  show "blockNodes render (Heading depth children)
       = [HeadingNode depth [TextNode (headingText children) None]]"
    by (simp add: blockNodes_def push_def)
next
  show "blockNodes render (Paragraph children) = [ParagraphNode (paragraphLoop children [])]"
    by (simp add: blockNodes_def push_def)
next
  assume a: "extractCommentsAppendix env qmdString = (cs, rest) \<and> matter env rest = Inr (y, md)
      \<and> remarkParse env md = xs @ Code (Some chunkOptions) code # ys
      \<and> list_all (renders (renderChunk env)) xs
      \<and> chunkOptions \<noteq> [] \<and> renderChunk env code chunkOptions = Inl e"
  then obtain st where
    "convertLoop (renderChunk env) \<lparr>proseMirrorNodes = [], renderCalls = []\<rparr> xs = Inr st"
    using convertLoop_renders by blast
  moreover from a have "convertLoop (renderChunk env) st (Code (Some chunkOptions) code # ys) = Inl e"
    by (intro convertLoop_rejects) simp_all
  ultimately have "convertLoop (renderChunk env) \<lparr>proseMirrorNodes = [], renderCalls = []\<rparr>
      (remarkParse env md) = Inl e"
    using a by (simp add: convertLoop_append del: convertLoop.simps)
  with a show "qmdToProseMirror env qmdString = Inl e"
    by (simp add: qmdToProseMirror_def)
qed

theorem C1_renderer_outcome_witness:
  "qmdToProseMirror exampleEnv exampleSource =
     Inr \<lparr>prosemirrorJson =
            \<lparr>content =
               [HeadingNode 1 [TextNode (js ''T'') None],
                QuartoBlock (js ''stop()'') (js ''{r}'') (ErrorPayload (JsError (js ''halted''))),
                ParagraphNode [TextNode (js ''Hello '') None, TextNode [] None]],
             yaml = [(js ''title'', js ''Demo'')]\<rparr>,
          comments = []\<rparr>
   \<and> blockNodes (renderChunk exampleEnv) (Code (Some (js ''{r}'')) (js ''stop()''))
       = [QuartoBlock (js ''stop()'') (js ''{r}'') (ErrorPayload (JsError (js ''halted'')))]
   \<and> qmdToProseMirror rejectingEnv exampleSource = Inl (JsError (js ''halted''))"
proof -
  have all: "list_all (renders (renderChunk exampleEnv)) (remarkParse exampleEnv exampleBody)"
    by (simp add: renders_example list_all_iff)
  have out: "renderChunk exampleEnv (js ''stop()'') (js ''{r}'')
               = Inr (ErrorPayload (JsError (js ''halted'')))"
    by (simp add: example_collaborators(4))
  have ne: "js ''{r}'' \<noteq> []" by (simp add: js_def)
  have before: "list_all (renders (renderChunk rejectingEnv)) [Heading 1 [Text (js ''T'')]]"
    by simp
  note inst = C1_renderer_outcome [of exampleEnv exampleSource "[]" exampleSource
      "[(js ''title'', js ''Demo'')]" exampleBody "js ''{r}''" "renderChunk exampleEnv"
      "js ''stop()''" "ErrorPayload (JsError (js ''halted''))"]
  note inst' = C1_renderer_outcome [of rejectingEnv exampleSource "[]" exampleSource
      "[(js ''title'', js ''Demo'')]" exampleBody "js ''{r}''" "renderChunk exampleEnv"
      "js ''stop()''" "ErrorPayload (JsError (js ''halted''))" 1 "[]"
      "[Heading 1 [Text (js ''T'')]]"
      "[Unhandled ListBlock, Code None (js ''plain''),
        Paragraph [Text (js ''Hello ''), Strong [Text (js ''you'')]]]"
      "JsError (js ''halted'')"]
  from inst example_collaborators(1,2) all
  have a: "qmdToProseMirror exampleEnv exampleSource =
           Inr \<lparr>prosemirrorJson =
                  \<lparr>content = concat (map (blockNodes (renderChunk exampleEnv))
                                 (remarkParse exampleEnv exampleBody)),
                   yaml = [(js ''title'', js ''Demo'')]\<rparr>,
                comments = []\<rparr>"
    by blast
  from inst ne out
  have b: "blockNodes (renderChunk exampleEnv) (Code (Some (js ''{r}'')) (js ''stop()''))
       = [QuartoBlock (js ''stop()'') (js ''{r}'') (ErrorPayload (JsError (js ''halted'')))]"
    by blast
  from inst' rejecting_collaborators ne before
  have c: "qmdToProseMirror rejectingEnv exampleSource = Inl (JsError (js ''halted''))"
    by blast
  from a b c show ?thesis
    by (simp add: example_collaborators(3) example_nodes)
qed

text \<open>
  C2. When the body that is left after the comments appendix and the (absent) front
  matter is \<^verbatim>\<open># T\<close>, a line break, \<^verbatim>\<open>Hello [world]{.comment ref="c1"}\<close>, for which remark
  yields a heading of depth 1 with the text \<open>T\<close> and a paragraph with that one text child,
  the tree has exactly two nodes: the heading of level 1 with the text \<open>T\<close>, and the
  paragraph with the plain segment \<open>Hello \<close> followed by \<open>world\<close> with a comment mark for
  \<open>c1\<close>.
\<close>

theorem C2_scenario:
  assumes "extractCommentsAppendix env qmdString = (cs, body)"
    and "matter env body = Inr (y, body)"
    and "body = js ''# T\<newline>Hello [world]{.comment ref=\"c1\"}''"
    and "remarkParse env body =
           [Heading 1 [Text (js ''T'')],
            Paragraph [Text (js ''Hello [world]{.comment ref=\"c1\"}'')]]"
  shows "qmdToProseMirror env qmdString =
           Inr \<lparr>prosemirrorJson =
                  \<lparr>content =
                     [HeadingNode 1 [TextNode (js ''T'') None],
                      ParagraphNode
                        [TextNode (js ''Hello '') None,
                         TextNode (js ''world'') (Some [CommentMark (js ''c1'')])]],
                   yaml = y\<rparr>,
                comments = cs\<rparr>"
proof -
  have h: "headingText [Text (js ''T'')] = js ''T''"
    by (simp add: headingText_def)
  show ?thesis
    using assms(1,2,4)
    by (simp add: qmdToProseMirror_def push_def h spanLoop_scenario)
qed

theorem C2_scenario_witness:
  "qmdToProseMirror exampleEnv (js ''# T\<newline>Hello [world]{.comment ref=\"c1\"}'') =
           Inr \<lparr>prosemirrorJson =
                  \<lparr>content =
                     [HeadingNode 1 [TextNode (js ''T'') None],
                      ParagraphNode
                        [TextNode (js ''Hello '') None,
                         TextNode (js ''world'') (Some [CommentMark (js ''c1'')])]],
                   yaml = []\<rparr>,
                comments = []\<rparr>"
proof -
  let ?body = "js ''# T\<newline>Hello [world]{.comment ref=\"c1\"}''"
  have 1: "extractCommentsAppendix exampleEnv ?body = ([], ?body)"
    by (simp add: exampleEnv_def)
  have 2: "matter exampleEnv ?body = Inr ([], ?body)"
    by (simp add: exampleEnv_def exampleSource_def js_def)
  have 3: "remarkParse exampleEnv ?body =
           [Heading 1 [Text (js ''T'')],
            Paragraph [Text (js ''Hello [world]{.comment ref=\"c1\"}'')]]"
    by (simp add: exampleEnv_def exampleBody_def scenarioBody_def scenarioTree_def js_def)
  from C2_scenario [OF 1 2 refl 3] show ?thesis .
qed

text \<open>
  The document \<^verbatim>\<open>---\<close>, \<^verbatim>\<open>title: [unclosed\<close>, \<^verbatim>\<open>---\<close>, \<^verbatim>\<open># T\<close>. At the first call
  gray-matter throws and the parse rejects: there is no doc node and no metadata. At a
  repeated call gray-matter returns no data and the whole text, and the front-matter line
  is a heading node of the content.
\<close>

theorem C6_malformed_front_matter_counterexample:
  "qmdToProseMirror firstCallEnv malformedSource = Inl (JsError (js ''YAMLException''))
   \<and> qmdToProseMirror repeatCallEnv malformedSource =
       Inr \<lparr>prosemirrorJson =
              \<lparr>content =
                 [HeadingNode 2 [TextNode (js ''title: [unclosed'') None],
                  HeadingNode 1 [TextNode (js ''T'') None]],
               yaml = []\<rparr>,
            comments = []\<rparr>"
  by (simp add: qmdToProseMirror_def firstCallEnv_def repeatCallEnv_def exampleEnv_def
        push_def headingText_def)

text \<open>
  C6 (amended). The parser leaves the split to gray-matter. For every input document on
  which gray-matter returns, with the data \<open>y\<close> for the front matter and the content \<open>md\<close>
  for the body, a tree that the parse returns has \<open>y\<close> as the \<open>yaml\<close> attribute of its doc
  node, and its content is what the blocks of \<open>md\<close> contribute, in order: nothing of the
  content comes from \<open>y\<close>. The parse returns such a tree when, besides, the renderer
  returns for every chunk of \<open>md\<close>. When gray-matter throws, as it does on front matter
  that is not valid YAML, the parse rejects with its error and returns no tree.
\<close>

theorem C6_front_matter:
  "(extractCommentsAppendix env qmdString = (cs, rest) \<and> matter env rest = Inr (y, md)
     \<longrightarrow> (qmdToProseMirror env qmdString = Inr res
            \<longrightarrow> yaml (prosemirrorJson res) = y
              \<and> content (prosemirrorJson res)
                  = concat (map (blockNodes (renderChunk env)) (remarkParse env md)))
        \<and> (list_all (renders (renderChunk env)) (remarkParse env md)
            \<longrightarrow> (\<exists>res'. qmdToProseMirror env qmdString = Inr res')))
   \<and> (extractCommentsAppendix env qmdString = (cs, rest) \<and> matter env rest = Inl e
     \<longrightarrow> qmdToProseMirror env qmdString = Inl e)"
proof (intro conjI impI)
  assume a: "extractCommentsAppendix env qmdString = (cs, rest) \<and> matter env rest = Inr (y, md)"
    and r: "qmdToProseMirror env qmdString = Inr res"
  then obtain st where
    st: "convertLoop (renderChunk env) \<lparr>proseMirrorNodes = [], renderCalls = []\<rparr>
           (remarkParse env md) = Inr st"
    and res: "res = \<lparr>prosemirrorJson = \<lparr>content = proseMirrorNodes st, yaml = y\<rparr>, comments = cs\<rparr>"
    by (auto simp: qmdToProseMirror_def split: sum.splits)
  from res show "yaml (prosemirrorJson res) = y" by simp
  from convertLoop_nodes [OF st] res
  show "content (prosemirrorJson res)
          = concat (map (blockNodes (renderChunk env)) (remarkParse env md))"
    by simp
next
  assume "extractCommentsAppendix env qmdString = (cs, rest) \<and> matter env rest = Inr (y, md)"
    and "list_all (renders (renderChunk env)) (remarkParse env md)"
  then show "\<exists>res'. qmdToProseMirror env qmdString = Inr res'"
    using qmdToProseMirror_content [of env qmdString cs rest y md] by simp
next
  assume "extractCommentsAppendix env qmdString = (cs, rest) \<and> matter env rest = Inl e"
  then show "qmdToProseMirror env qmdString = Inl e"
    by (simp add: qmdToProseMirror_def)
qed

theorem C6_front_matter_witness:
  "(\<exists>res. qmdToProseMirror exampleEnv exampleSource = Inr res
       \<and> yaml (prosemirrorJson res) = [(js ''title'', js ''Demo'')]
       \<and> content (prosemirrorJson res) =
           [HeadingNode 1 [TextNode (js ''T'') None],
            QuartoBlock (js ''stop()'') (js ''{r}'') (ErrorPayload (JsError (js ''halted''))),
            ParagraphNode [TextNode (js ''Hello '') None, TextNode [] None]])
   \<and> qmdToProseMirror firstCallEnv malformedSource = Inl (JsError (js ''YAMLException''))"
proof -
  have all: "list_all (renders (renderChunk exampleEnv)) (remarkParse exampleEnv exampleBody)"
    by (simp add: renders_example list_all_iff)
  have first: "extractCommentsAppendix firstCallEnv malformedSource = ([], malformedSource)"
    "matter firstCallEnv malformedSource = Inl (JsError (js ''YAMLException''))"
    by (simp_all add: firstCallEnv_def exampleEnv_def)
  note inst = C6_front_matter [of exampleEnv exampleSource "[]" exampleSource
      "[(js ''title'', js ''Demo'')]" exampleBody]
  note inst' = C6_front_matter [of firstCallEnv malformedSource "[]" malformedSource "[]" "[]"
      "\<lparr>prosemirrorJson = \<lparr>content = [], yaml = []\<rparr>, comments = []\<rparr>"
      "JsError (js ''YAMLException'')"]
  from inst example_collaborators(1,2) all
  obtain res where res: "qmdToProseMirror exampleEnv exampleSource = Inr res"
    by blast
  from inst [of res] example_collaborators(1,2) res
  have "yaml (prosemirrorJson res) = [(js ''title'', js ''Demo'')]"
    "content (prosemirrorJson res)
       = concat (map (blockNodes (renderChunk exampleEnv)) (remarkParse exampleEnv exampleBody))"
    by blast+
  moreover from inst' first
  have "qmdToProseMirror firstCallEnv malformedSource = Inl (JsError (js ''YAMLException''))"
    by blast
  ultimately show ?thesis
    using res by (intro conjI exI [of _ res]) (simp_all add: example_collaborators(3) example_nodes)
qed

text \<open>
  The heading \<^verbatim>\<open># a **b**\<close>: its flattened plain text is \<open>a b\<close>, the text of the heading
  node is \<open>a \<close>. A \<open>strong\<close> child has no \<open>value\<close>, and \<open>join\<close> renders \<open>undefined\<close> as the
  empty string.
\<close>

theorem C7_flattened_text_counterexample:
  "visit (\<lambda>code chunkOptions. Inr chunkOptions) \<lparr>proseMirrorNodes = [], renderCalls = []\<rparr>
       (Heading 1 [Text (js ''a ''), Strong [Text (js ''b'')]])
     = Inr \<lparr>proseMirrorNodes = [HeadingNode 1 [TextNode (js ''a '') None]], renderCalls = []\<rparr>
   \<and> concat (map plainText [Text (js ''a ''), Strong [Text (js ''b'')]]) = js ''a b''"
  by (simp add: push_def headingText_def js_def)

text \<open>
  C7 (amended). For every heading at any place among the top-level blocks, the loop pushes
  a heading node whose level is the depth of the heading and whose content is a single
  text node. Its text is the concatenation of the values of the direct children of the
  heading that have one (text, inline code, inline html), that is the flattened plain
  text of those children; a child without a value of its own (emphasis, strong, link,
  image, break) contributes nothing.
\<close>

theorem C7_heading:
  "convertLoop render st (xs @ Heading depth children # ys) =
     (case convertLoop render st xs of
        Inl e \<Rightarrow> Inl e
      | Inr st' \<Rightarrow>
          convertLoop render
            (st'\<lparr>proseMirrorNodes := proseMirrorNodes st'
                     @ [HeadingNode depth [TextNode (headingText children) None]]\<rparr>) ys)
   \<and> headingText children
       = concat (map plainText (filter (\<lambda>c. ivalue c \<noteq> None) children))"
proof (intro conjI)
  show "convertLoop render st (xs @ Heading depth children # ys) =
     (case convertLoop render st xs of
        Inl e \<Rightarrow> Inl e
      | Inr st' \<Rightarrow>
          convertLoop render
            (st'\<lparr>proseMirrorNodes := proseMirrorNodes st'
                     @ [HeadingNode depth [TextNode (headingText children) None]]\<rparr>) ys)"
    by (simp add: convertLoop_append push_def split: sum.splits)
  show "headingText children
       = concat (map plainText (filter (\<lambda>c. ivalue c \<noteq> None) children))"
    by (rule headingText_literals)
qed

theorem C7_heading_witness:
  "convertLoop (\<lambda>code chunkOptions. Inr chunkOptions) \<lparr>proseMirrorNodes = [], renderCalls = []\<rparr>
       [Unhandled ThematicBreak, Heading 2 [Text (js ''a ''), Strong [Text (js ''b'')], InlineCode (js ''c'')]]
     = Inr \<lparr>proseMirrorNodes = [HeadingNode 2 [TextNode (js ''a c'') None]], renderCalls = []\<rparr>"
  using C7_heading [of "\<lambda>code chunkOptions. Inr chunkOptions"
      "\<lparr>proseMirrorNodes = [], renderCalls = []\<rparr>" "[Unhandled ThematicBreak]" 2
      "[Text (js ''a ''), Strong [Text (js ''b'')], InlineCode (js ''c'')]" "[]"]
  by (simp add: js_def push_def)

text \<open>
  C8. The content of the returned tree is what the blocks contribute one by one, in
  source order. A block that is neither a heading, nor a paragraph, nor a code block with
  a language tag contributes nothing, and its iteration changes nothing; parsing a
  document gives what parsing gives with all such blocks removed from the markdown tree.
\<close>

theorem C8_order_and_dropping:
  "(extractCommentsAppendix env qmdString = (cs, rest) \<and> matter env rest = Inr (y, md)
      \<and> qmdToProseMirror env qmdString = Inr res
     \<longrightarrow> content (prosemirrorJson res)
           = concat (map (blockNodes (renderChunk env)) (remarkParse env md)))
   \<and> (\<not> handled b \<longrightarrow>
         blockNodes render b = []
       \<and> convertLoop render st (xs @ b # ys) = convertLoop render st (xs @ ys))
   \<and> qmdToProseMirror env qmdString
       = qmdToProseMirror (env\<lparr>remarkParse := filter handled \<circ> remarkParse env\<rparr>) qmdString"
proof (intro conjI impI)
  assume a: "extractCommentsAppendix env qmdString = (cs, rest) \<and> matter env rest = Inr (y, md)
      \<and> qmdToProseMirror env qmdString = Inr res"
  then obtain st where
    st: "convertLoop (renderChunk env) \<lparr>proseMirrorNodes = [], renderCalls = []\<rparr>
           (remarkParse env md) = Inr st"
    and res: "res = \<lparr>prosemirrorJson = \<lparr>content = proseMirrorNodes st, yaml = y\<rparr>, comments = cs\<rparr>"
    by (auto simp: qmdToProseMirror_def split: sum.splits)
  from convertLoop_nodes [OF st] res
  show "content (prosemirrorJson res)
           = concat (map (blockNodes (renderChunk env)) (remarkParse env md))"
    by simp
next
  assume "\<not> handled b"
  then show "blockNodes render b = []"
    by (simp add: blockNodes_def visit_unhandled)
next
  assume "\<not> handled b"
  then show "convertLoop render st (xs @ b # ys) = convertLoop render st (xs @ ys)"
    by (rule convertLoop_drop)
next
  show "qmdToProseMirror env qmdString
       = qmdToProseMirror (env\<lparr>remarkParse := filter handled \<circ> remarkParse env\<rparr>) qmdString"
    by (simp add: qmdToProseMirror_def convertLoop_filter split: prod.splits sum.splits)
qed

theorem C8_order_and_dropping_witness:
  "(\<exists>res. qmdToProseMirror exampleEnv exampleSource = Inr res
       \<and> content (prosemirrorJson res) =
           [HeadingNode 1 [TextNode (js ''T'') None],
            QuartoBlock (js ''stop()'') (js ''{r}'') (ErrorPayload (JsError (js ''halted''))),
            ParagraphNode [TextNode (js ''Hello '') None, TextNode [] None]])
   \<and> blockNodes (renderChunk exampleEnv) (Unhandled ListBlock) = []
   \<and> qmdToProseMirror exampleEnv exampleSource
       = qmdToProseMirror (exampleEnv\<lparr>remarkParse := filter handled \<circ> remarkParse exampleEnv\<rparr>)
           exampleSource"
proof -
  have "list_all (renders (renderChunk exampleEnv)) (remarkParse exampleEnv exampleBody)"
    by (simp add: renders_example list_all_iff)
  from qmdToProseMirror_content [OF example_collaborators(1,2) this]
  obtain res where res: "qmdToProseMirror exampleEnv exampleSource = Inr res" by blast
  note inst = C8_order_and_dropping [of exampleEnv exampleSource "[]" exampleSource
      "[(js ''title'', js ''Demo'')]" exampleBody res "Unhandled ListBlock" "renderChunk exampleEnv"]
  from inst res example_collaborators(1,2)
  have "content (prosemirrorJson res)
          = concat (map (blockNodes (renderChunk exampleEnv)) (remarkParse exampleEnv exampleBody))"
    by blast
  moreover from inst have "blockNodes (renderChunk exampleEnv) (Unhandled ListBlock) = []"
    by simp
  moreover from inst have "qmdToProseMirror exampleEnv exampleSource
       = qmdToProseMirror (exampleEnv\<lparr>remarkParse := filter handled \<circ> remarkParse exampleEnv\<rparr>)
           exampleSource"
    by blast
  ultimately show ?thesis
    using res by (intro conjI exI [of _ res]) (simp_all add: example_collaborators(3) example_nodes)
qed

text \<open>
  C9. The iteration for a code block without a language tag leaves the state of the loop
  as it is: no node is pushed and the renderer is not called. The loop over any blocks
  gives what it gives without the block, whatever the renderer is, and the block
  contributes no node.
\<close>

theorem C9_untagged_code:
  "visit render st (Code None code) = Inr st
   \<and> convertLoop render st (xs @ Code None code # ys) = convertLoop render st (xs @ ys)
   \<and> blockNodes render (Code None code) = []"
  by (simp add: convertLoop_drop blockNodes_def)

theorem C9_untagged_code_witness:
  "convertLoop (\<lambda>code chunkOptions. Inl (JsError code)) \<lparr>proseMirrorNodes = [], renderCalls = []\<rparr>
       [Code None (js ''x <- 1'')]
     = Inr \<lparr>proseMirrorNodes = [], renderCalls = []\<rparr>"
  using C9_untagged_code [of "\<lambda>code chunkOptions. Inl (JsError code)"
      "\<lparr>proseMirrorNodes = [], renderCalls = []\<rparr>" "js ''x <- 1''" "[]" "[]"]
  by simp

section \<open>The claims about the cache paths\<close>

text \<open>
  \<open>path.join\<close> normalizes: with the repository id \<open>..\<close> the asset directory is not below
  \<open>assets\<close>, and with the repository id \<open>../x\<close> the cache entry is not in the directory of
  the rendered documents. (The digest plays no part there; it is a constant.)
\<close>

theorem C4_layout_counterexample:
  "calculateAssetCacheDir exampleRuntime (js ''..'') (js ''doc.qmd'') (js ''abc123'')
     = js ''/srv/backend/cache/abc123/doc_files''
   \<and> CACHE_DIR exampleRuntime = js ''/srv/backend/cache''
   \<and> calculateCacheFilename exampleRuntime (\<lambda>path. 0) (js ''../x'') (js ''doc.qmd'') (js ''abc123'')
     = js ''/srv/backend/cache/x-00000000000000000000000000000000-abc123.json''
   \<and> CACHE_DIR_RENDERED_DOCS exampleRuntime = js ''/srv/backend/cache/rendered_docs''"
  by (simp add: calculateAssetCacheDir_def calculateCacheFilename_def example_roots
        path_join_def path_normalize_def normalizeString_def path_parse_name_def digestHex_def
        js_def slash_def upt_rec)

text \<open>
  C4 (amended). Let the directory of the module be an absolute path. For every repository
  id and commit reference without a separator, \<open>calculateCacheFilename\<close> returns the
  directory of the rendered documents, a separator, and
  \<open><repoId>-<hash>-<commitRef>.json\<close>, where \<open><hash>\<close> is the digest of the file path written
  as 32 hexadecimal digits; that directory is \<open>rendered_docs\<close> in the cache root. For
  every repository id and commit reference that are path segments left alone by
  normalization (not empty, without a separator, neither \<open>.\<close> nor \<open>..\<close>),
  \<open>calculateAssetCacheDir\<close> returns \<open><cacheRoot>/assets/<repoId>/<commitRef>/<stem>_files\<close>,
  where \<open><stem>\<close> is the \<open>name\<close> that \<open>path.parse\<close> gives for the file name.
\<close>

theorem C4_cache_paths:
  "dirname rt \<noteq> [] \<and> hd (dirname rt) = slash \<longrightarrow>
     (slash \<notin> set repoId \<and> slash \<notin> set commitRef \<longrightarrow>
        calculateCacheFilename rt md5 repoId filePath commitRef =
          CACHE_DIR_RENDERED_DOCS rt @ js ''/'' @ repoId @ js ''-'' @ digestHex (md5 filePath)
            @ js ''-'' @ commitRef @ js ''.json'')
     \<and> length (digestHex (md5 filePath)) = 32
     \<and> set (digestHex (md5 filePath)) \<subseteq> set (js ''0123456789abcdef'')
     \<and> CACHE_DIR_RENDERED_DOCS rt = CACHE_DIR rt @ js ''/rendered_docs''
     \<and> (cleanSegment repoId \<and> cleanSegment commitRef \<longrightarrow>
        calculateAssetCacheDir rt repoId fileName commitRef =
          CACHE_DIR rt @ js ''/assets/'' @ repoId @ js ''/'' @ commitRef @ js ''/''
            @ path_parse_name fileName @ js ''_files'')"
proof (intro impI conjI)
  assume a: "dirname rt \<noteq> [] \<and> hd (dirname rt) = slash"
  show "length (digestHex (md5 filePath)) = 32" by (rule digestHex_length)
  show "set (digestHex (md5 filePath)) \<subseteq> set (js ''0123456789abcdef'')" by (rule digestHex_digits)
  from a show "CACHE_DIR_RENDERED_DOCS rt = CACHE_DIR rt @ js ''/rendered_docs''"
    by (metis cache_roots)
  {
    assume "slash \<notin> set repoId \<and> slash \<notin> set commitRef"
    with a show "calculateCacheFilename rt md5 repoId filePath commitRef =
          CACHE_DIR_RENDERED_DOCS rt @ js ''/'' @ repoId @ js ''-'' @ digestHex (md5 filePath)
            @ js ''-'' @ commitRef @ js ''.json''"
      by (intro calculateCacheFilename_layout) simp_all
  }
  {
    assume "cleanSegment repoId \<and> cleanSegment commitRef"
    with a show "calculateAssetCacheDir rt repoId fileName commitRef =
          CACHE_DIR rt @ js ''/assets/'' @ repoId @ js ''/'' @ commitRef @ js ''/''
            @ path_parse_name fileName @ js ''_files''"
      by (intro calculateAssetCacheDir_layout) simp_all
  }
qed

theorem C4_cache_paths_witness:
  "calculateCacheFilename exampleRuntime (\<lambda>path. of_nat (length path))
       (js ''test-repo-id-cache'') (js ''doc.qmd'') (js ''abc123'')
     = js ''/srv/backend/cache/rendered_docs/test-repo-id-cache-00000000000000000000000000000007-abc123.json''
   \<and> calculateAssetCacheDir exampleRuntime (js ''test-repo-id-cache'') (js ''doc.qmd'') (js ''abc123'')
     = js ''/srv/backend/cache/assets/test-repo-id-cache/abc123/doc_files''"
proof -
  have d: "dirname exampleRuntime \<noteq> [] \<and> hd (dirname exampleRuntime) = slash"
    by (simp add: exampleRuntime_def js_def slash_def)
  have c: "cleanSegment (js ''test-repo-id-cache'')" "cleanSegment (js ''abc123'')"
    by (simp_all add: cleanSegment_def js_def slash_def)
  then have s: "slash \<notin> set (js ''test-repo-id-cache'') \<and> slash \<notin> set (js ''abc123'')"
    by (simp add: cleanSegment_def)
  have h: "digestHex (of_nat (length (js ''doc.qmd''))) = js ''00000000000000000000000000000007''"
    by (simp add: digestHex_def js_def upt_rec)
  have n: "path_parse_name (js ''doc.qmd'') = js ''doc''"
    by (simp add: path_parse_name_def js_def slash_def)
  note inst = C4_cache_paths [of exampleRuntime "js ''test-repo-id-cache''" "js ''abc123''"
      "\<lambda>path. of_nat (length path)" "js ''doc.qmd''" "js ''doc.qmd''"]
  from inst d s have f: "calculateCacheFilename exampleRuntime (\<lambda>path. of_nat (length path))
       (js ''test-repo-id-cache'') (js ''doc.qmd'') (js ''abc123'')
     = CACHE_DIR_RENDERED_DOCS exampleRuntime @ js ''/'' @ js ''test-repo-id-cache'' @ js ''-''
         @ digestHex (of_nat (length (js ''doc.qmd''))) @ js ''-'' @ js ''abc123'' @ js ''.json''"
    by blast
  from inst d c have g: "calculateAssetCacheDir exampleRuntime (js ''test-repo-id-cache'')
       (js ''doc.qmd'') (js ''abc123'')
     = CACHE_DIR exampleRuntime @ js ''/assets/'' @ js ''test-repo-id-cache'' @ js ''/''
         @ js ''abc123'' @ js ''/'' @ path_parse_name (js ''doc.qmd'') @ js ''_files''"
    by blast
  show ?thesis
    unfolding f g example_roots h n by (simp add: js_def)
qed

text \<open>
  C5. The two paths depend on the process only through the directory of the module: two
  runs in processes with the same module directory, whatever their process ids and
  clocks, give the same cache entry path and the same asset directory for the same
  arguments.
\<close>

theorem C5_deterministic:
  "dirname rt = dirname rt' \<longrightarrow>
     calculateCacheFilename rt md5 repoId filePath commitRef
       = calculateCacheFilename rt' md5 repoId filePath commitRef
     \<and> calculateAssetCacheDir rt repoId fileName commitRef
       = calculateAssetCacheDir rt' repoId fileName commitRef"
  by (simp add: calculateCacheFilename_def calculateAssetCacheDir_def
        CACHE_DIR_RENDERED_DOCS_def CACHE_DIR_def)

theorem C5_deterministic_witness:
  "calculateCacheFilename exampleRuntime (\<lambda>path. of_nat (length path))
       (js ''test-repo-id-cache'') (js ''doc.qmd'') (js ''abc123'')
     = calculateCacheFilename (exampleRuntime\<lparr>pid := 9, now := 86400000\<rparr>)
         (\<lambda>path. of_nat (length path)) (js ''test-repo-id-cache'') (js ''doc.qmd'') (js ''abc123'')
   \<and> calculateAssetCacheDir exampleRuntime (js ''test-repo-id-cache'') (js ''doc.qmd'') (js ''abc123'')
     = calculateAssetCacheDir (exampleRuntime\<lparr>pid := 9, now := 86400000\<rparr>)
         (js ''test-repo-id-cache'') (js ''doc.qmd'') (js ''abc123'')"
  using C5_deterministic [of exampleRuntime "exampleRuntime\<lparr>pid := 9, now := 86400000\<rparr>"]
  by simp

end
